(* ===== verification/Prelude.thy ===== *)
theory Prelude
  imports Main "HOL-Library.Word" "HOL-Library.AList"
begin

unbundle bit_operations_syntax

section \<open>Shared vocabulary of the development\<close>

text \<open>
  The machine integers of the Rust sources are words of their width, a byte
  buffer (\<^verbatim>\<open>Bytes\<close>, \<^verbatim>\<open>Vec<u8>\<close>, \<^verbatim>\<open>&[u8]\<close>) is a list of bytes, and a fallible
  function returns a sum whose left summand is the error.  \<^verbatim>\<open>usize\<close> is 64 bits
  wide where its wrap-around is observable and a natural number where it only
  counts.  The theory holds the big- and little-endian integer codecs of the
  \<^verbatim>\<open>bytes\<close> buffers and of \<^verbatim>\<open>to_be_bytes\<close>/\<^verbatim>\<open>to_le_bytes\<close>, the two map containers
  (\<^verbatim>\<open>BTreeMap\<close> as an association list sorted by key, \<^verbatim>\<open>HashMap\<close> as an association
  list under the updates of the library theory), and the lemmas on them which
  the component theories share.
\<close>

type_synonym byte = "8 word"
type_synonym bytes = "byte list"
type_synonym u16 = "16 word"
type_synonym u32 = "32 word"
type_synonym u64 = "64 word"
type_synonym usize = "64 word"
type_synonym ('e, 'a) res = "'e + 'a"

abbreviation Err :: "'e \<Rightarrow> ('e, 'a) res" where "Err \<equiv> Inl"
abbreviation Ok :: "'a \<Rightarrow> ('e, 'a) res" where "Ok \<equiv> Inr"

named_theorems codec_simps \<open>round-trip and length facts of the byte codecs\<close>
named_theorems map_laws \<open>lookup laws of the map containers\<close>

subsection \<open>Results\<close>

definition ok_or :: "'e \<Rightarrow> 'a option \<Rightarrow> ('e, 'a) res" where
  "ok_or e x = (case x of None \<Rightarrow> Err e | Some v \<Rightarrow> Ok v)"

definition res_bind :: "('e, 'a) res \<Rightarrow> ('a \<Rightarrow> ('e, 'b) res) \<Rightarrow> ('e, 'b) res" where
  "res_bind r f = (case r of Inl e \<Rightarrow> Err e | Inr v \<Rightarrow> f v)"

definition res_ok :: "('e, 'a) res \<Rightarrow> 'a option" where
  "res_ok r = (case r of Inl e \<Rightarrow> None | Inr v \<Rightarrow> Some v)"

definition is_ok :: "('e, 'a) res \<Rightarrow> bool" where
  "is_ok r = (case r of Inl e \<Rightarrow> False | Inr v \<Rightarrow> True)"

lemma ok_or_simps [simp]:
  "ok_or e None = Err e" "ok_or e (Some v) = Ok v"
  by (simp_all add: ok_or_def)

lemma res_bind_simps [simp]:
  "res_bind (Inl e) f = Err e" "res_bind (Inr v) f = f v"
  by (simp_all add: res_bind_def)

lemma res_ok_simps [simp]:
  "res_ok (Inl e) = None" "res_ok (Inr v) = Some v"
  by (simp_all add: res_ok_def)

lemma is_ok_simps [simp]:
  "is_ok (Inl e) = False" "is_ok (Inr v) = True"
  by (simp_all add: is_ok_def)

lemma ok_or_eq_Ok [simp]: "ok_or e x = Inr v \<longleftrightarrow> x = Some v"
  by (cases x) simp_all

lemma res_bind_eq_Ok: "res_bind r f = Inr v \<longleftrightarrow> (\<exists>a. r = Inr a \<and> f a = Inr v)"
  by (cases r) simp_all

text \<open>A computation that may panic (index or slice out of range, \<^verbatim>\<open>unwrap\<close>, \<^verbatim>\<open>expect\<close>).\<close>

datatype 'a exec = Panic | Return 'a

subsection \<open>Saturating and checked arithmetic on counters\<close>

definition saturating_add :: "'a::len word \<Rightarrow> 'a word \<Rightarrow> 'a word" where
  "saturating_add x y = (if unat x + unat y < 2 ^ LENGTH('a) then x + y else - 1)"

definition saturating_sub :: "'a::len word \<Rightarrow> 'a word \<Rightarrow> 'a word" where
  "saturating_sub x y = (if x < y then 0 else x - y)"

lemma unat_bound: "unat w < 2 ^ LENGTH('a)" for w :: "'a::len word"
  by (rule unsigned_less)

lemma unat_of_nat_small: "n < 2 ^ LENGTH('a) \<Longrightarrow> unat (of_nat n :: 'a::len word) = n"
  by (simp add: unsigned_of_nat take_bit_eq_mod)

lemma unat_saturating_add:
  "unat (saturating_add x y) = min (unat x + unat y) (2 ^ LENGTH('a) - 1)"
  for x y :: "'a::len word"
proof (cases "unat x + unat y < 2 ^ LENGTH('a)")
  case True
  then show ?thesis by (simp add: saturating_add_def unat_word_ariths)
next
  case False
  then show ?thesis by (simp add: saturating_add_def unsigned_minus_1_eq_mask mask_eq_exp_minus_1)
qed

lemma unat_saturating_sub: "unat (saturating_sub x y) = unat x - unat y"
  for x y :: "'a::len word"
  by (auto simp: saturating_sub_def unat_sub word_less_nat_alt word_le_nat_alt not_less)

lemma unat_Suc_word: "unat x < 2 ^ LENGTH('a) - 1 \<Longrightarrow> unat (x + 1) = Suc (unat x)"
  for x :: "'a::len word"
  by (simp add: unat_word_ariths)

subsection \<open>Big-endian and little-endian integers\<close>

text \<open>\<open>nat_be n x\<close> are the last \<open>n\<close> base-256 digits of \<open>x\<close>, most significant first.\<close>

fun nat_be :: "nat \<Rightarrow> nat \<Rightarrow> bytes" where
  "nat_be 0 x = []"
| "nat_be (Suc n) x = nat_be n (x div 256) @ [of_nat x]"

definition be_nat :: "bytes \<Rightarrow> nat" where
  "be_nat bs = foldl (\<lambda>acc b. acc * 256 + unat b) 0 bs"

definition put_u16 :: "u16 \<Rightarrow> bytes" where "put_u16 w = nat_be 2 (unat w)"
definition put_u32 :: "u32 \<Rightarrow> bytes" where "put_u32 w = nat_be 4 (unat w)"
definition put_u64 :: "u64 \<Rightarrow> bytes" where "put_u64 w = nat_be 8 (unat w)"
definition get_u16 :: "bytes \<Rightarrow> u16" where "get_u16 bs = of_nat (be_nat (take 2 bs))"
definition get_u32 :: "bytes \<Rightarrow> u32" where "get_u32 bs = of_nat (be_nat (take 4 bs))"
definition get_u64 :: "bytes \<Rightarrow> u64" where "get_u64 bs = of_nat (be_nat (take 8 bs))"
definition le_u16 :: "u16 \<Rightarrow> bytes" where "le_u16 w = rev (put_u16 w)"
definition le_u32 :: "u32 \<Rightarrow> bytes" where "le_u32 w = rev (put_u32 w)"

lemma length_nat_be [simp]: "length (nat_be n x) = n"
  by (induction n x rule: nat_be.induct) simp_all

lemma be_nat_Nil [simp]: "be_nat [] = 0"
  by (simp add: be_nat_def)

lemma be_nat_snoc [simp]: "be_nat (bs @ [b]) = be_nat bs * 256 + unat b"
  by (simp add: be_nat_def)

lemma be_nat_less: "be_nat bs < 256 ^ length bs"
proof (induction bs rule: rev_induct)
  case (snoc b bs)
  have "unat b < 256" using unat_bound [of b] by simp
  with snoc show ?case by simp
qed simp

lemma be_nat_nat_be [codec_simps]: "be_nat (nat_be n x) = x mod 256 ^ n"
proof (induction n x rule: nat_be.induct)
  case (2 n x)
  have "x mod (256 * 256 ^ n) = 256 * (x div 256 mod 256 ^ n) + x mod 256"
    by (rule mod_mult2_eq)
  with 2 show ?case by (simp add: unsigned_of_nat take_bit_eq_mod mult.commute)
qed simp

lemma nat_be_be_nat [codec_simps]: "nat_be (length bs) (be_nat bs) = bs"
proof (induction bs rule: rev_induct)
  case (snoc b bs)
  have b: "unat b < 256" using unat_bound [of b] by simp
  then have "(be_nat bs * 256 + unat b) div 256 = be_nat bs" by simp
  moreover have "of_nat (be_nat bs * 256 + unat b) = b"
  proof -
    have "(256 :: byte) = 0" by simp
    then have "of_nat (be_nat bs * 256) = (0 :: byte)" by (simp only: of_nat_mult of_nat_numeral) simp
    then show ?thesis by (simp only: of_nat_add) simp
  qed
  ultimately show ?case using snoc by simp
qed simp

lemma length_put [simp]:
  "length (put_u16 a) = 2" "length (put_u32 b) = 4" "length (put_u64 c) = 8"
  "length (le_u16 a) = 2" "length (le_u32 b) = 4"
  by (simp_all add: put_u16_def put_u32_def put_u64_def le_u16_def le_u32_def)

lemma get_put_u16 [simp, codec_simps]: "get_u16 (put_u16 w @ bs) = w"
  using unat_bound [of w]
  by (simp add: get_u16_def put_u16_def be_nat_nat_be)

lemma get_put_u32 [simp, codec_simps]: "get_u32 (put_u32 w @ bs) = w"
  using unat_bound [of w]
  by (simp add: get_u32_def put_u32_def be_nat_nat_be)

lemma get_put_u64 [simp, codec_simps]: "get_u64 (put_u64 w @ bs) = w"
  using unat_bound [of w]
  by (simp add: get_u64_def put_u64_def be_nat_nat_be)

lemma unat_of_be_nat:
  "length bs = n \<Longrightarrow> 256 ^ n = (2::nat) ^ LENGTH('a) \<Longrightarrow> unat (of_nat (be_nat bs) :: 'a::len word) = be_nat bs"
  using be_nat_less [of bs] by (simp add: unsigned_of_nat take_bit_eq_mod)

lemma put_get_u16 [codec_simps]: "2 \<le> length bs \<Longrightarrow> put_u16 (get_u16 bs) = take 2 bs"
  using nat_be_be_nat [of "take 2 bs"] unat_of_be_nat [where 'a=16, of "take 2 bs" 2]
  by (simp add: put_u16_def get_u16_def)

lemma put_get_u32 [codec_simps]: "4 \<le> length bs \<Longrightarrow> put_u32 (get_u32 bs) = take 4 bs"
  using nat_be_be_nat [of "take 4 bs"] unat_of_be_nat [where 'a=32, of "take 4 bs" 4]
  by (simp add: put_u32_def get_u32_def)

lemma put_get_u64 [codec_simps]: "8 \<le> length bs \<Longrightarrow> put_u64 (get_u64 bs) = take 8 bs"
  using nat_be_be_nat [of "take 8 bs"] unat_of_be_nat [where 'a=64, of "take 8 bs" 8]
  by (simp add: put_u64_def get_u64_def)

subsection \<open>Bit fields as natural numbers\<close>

named_theorems unat_bits \<open>natural-number values of masks, shifts and casts\<close>

lemma unat_and_ffff [unat_bits]: "unat (s AND 0xffff) = unat s mod 65536" for s :: u32
proof -
  have "(0xffff :: u32) = mask 16" by (simp add: mask_eq_exp_minus_1)
  then have "s AND 0xffff = take_bit 16 s" by (simp only: take_bit_eq_mask)
  then have "unat (s AND 0xffff) = take_bit 16 (unat s)" by (simp only:) (rule unsigned_take_bit_eq)
  then show ?thesis by (simp add: take_bit_eq_mod)
qed

lemma unat_and_0f [unat_bits]: "unat (b AND 0x0f) = unat b mod 16" for b :: byte
proof -
  have "(0x0f :: byte) = mask 4" by (simp add: mask_eq_exp_minus_1)
  then have "b AND 0x0f = take_bit 4 b" by (simp only: take_bit_eq_mask)
  then have "unat (b AND 0x0f) = take_bit 4 (unat b)" by (simp only:) (rule unsigned_take_bit_eq)
  then show ?thesis by (simp add: take_bit_eq_mod)
qed

lemma unat_drop_bit16 [unat_bits]: "unat (drop_bit 16 s) = unat s div 65536" for s :: u32
  using unat_bound [of s] unfolding unsigned_drop_bit_eq by (simp add: drop_bit_eq_div take_bit_eq_mod)

lemma unat_shl8 [unat_bits]: "unat (push_bit 8 (ucast a) :: u32) = unat a * 256" for a :: byte
  unfolding unsigned_push_bit_eq unsigned_ucast_eq using unat_bound [of a]
  by (simp add: push_bit_eq_mult take_bit_eq_mod)

lemma unat_ucast_u16_u32 [unat_bits]: "unat (ucast w :: u32) = unat w" for w :: u16
  using unat_bound [of w] by (simp add: unsigned_ucast_eq take_bit_eq_mod)

lemma unat_ucast_u32_u16 [unat_bits]: "unat (ucast w :: u16) = unat w mod 65536" for w :: u32
  by (simp add: unsigned_ucast_eq take_bit_eq_mod)

lemma unat_not_u16 [unat_bits]: "unat (NOT w) = 65535 - unat w" for w :: u16
proof -
  have "NOT w = - 1 - w" by (simp add: not_eq_complement)
  then show ?thesis using unat_sub [of w "-1"] by (simp add: unsigned_minus_1_eq_mask mask_eq_exp_minus_1)
qed

lemma unat_get_u16_pair [unat_bits]: "unat (get_u16 [a, b]) = unat a * 256 + unat b"
  using unat_of_be_nat [where 'a=16, of "[a, b]" 2] be_nat_snoc [of "[a]" b] be_nat_snoc [of "[]" a]
  by (simp add: get_u16_def)

lemma put_u16_pair: "put_u16 w = [of_nat (unat w div 256), ucast w]"
  by (simp add: put_u16_def numeral_2_eq_2)

definition hi_byte :: "u16 \<Rightarrow> byte" where "hi_byte w = of_nat (unat w div 256)"
definition lo_byte :: "u16 \<Rightarrow> byte" where "lo_byte w = ucast w"

lemma put_u16_hi_lo: "put_u16 w = [hi_byte w, lo_byte w]"
  by (simp add: put_u16_pair hi_byte_def lo_byte_def)

lemma get_u16_hi_lo [simp]: "get_u16 [hi_byte w, lo_byte w] = w"
  using get_put_u16 [of w "[]"] by (simp add: put_u16_hi_lo)

lemma get_u16_put_pair [simp]: "get_u16 [of_nat (unat w div 256), ucast w] = w"
  using get_put_u16 [of w "[]"] unfolding put_u16_pair by simp

subsection \<open>Ordered maps\<close>

text \<open>\<^verbatim>\<open>BTreeMap\<close>: an association list whose keys increase strictly.\<close>

type_synonym ('k, 'v) btree = "('k \<times> 'v) list"

abbreviation keys :: "('k \<times> 'v) list \<Rightarrow> 'k list" where "keys m \<equiv> map fst m"

fun bt_insert :: "'k::linorder \<Rightarrow> 'v \<Rightarrow> ('k, 'v) btree \<Rightarrow> ('k, 'v) btree" where
  "bt_insert k v [] = [(k, v)]"
| "bt_insert k v ((j, w) # m) =
     (if k < j then (k, v) # (j, w) # m
      else if k = j then (k, v) # m
      else (j, w) # bt_insert k v m)"

definition bt_remove :: "'k \<Rightarrow> ('k, 'v) btree \<Rightarrow> ('k, 'v) btree" where
  "bt_remove k m = filter (\<lambda>e. fst e \<noteq> k) m"

definition bt_wf :: "('k::linorder, 'v) btree \<Rightarrow> bool" where
  "bt_wf m = sorted_wrt (<) (keys m)"

lemma bt_wf_Nil [simp]: "bt_wf []"
  by (simp add: bt_wf_def)

lemma bt_wf_Cons: "bt_wf ((j, w) # m) \<longleftrightarrow> (\<forall>k \<in> set (keys m). j < k) \<and> bt_wf m"
  by (simp add: bt_wf_def)

lemma set_keys_bt_insert [simp]: "set (keys (bt_insert k v m)) = insert k (set (keys m))"
  by (induction k v m rule: bt_insert.induct) auto

lemma bt_wf_insert [simp]: "bt_wf m \<Longrightarrow> bt_wf (bt_insert k v m)"
proof (induction k v m rule: bt_insert.induct)
  case (1 k v)
  then show ?case by (simp add: bt_wf_Cons)
next
  case (2 k v j w m)
  show ?case
  proof (cases k j rule: linorder_cases)
    case less
    with 2(2) show ?thesis by (auto simp: bt_wf_Cons)
  next
    case equal
    with 2(2) show ?thesis by (simp add: bt_wf_Cons)
  next
    case greater
    with 2 have "bt_wf (bt_insert k v m)" by (simp add: bt_wf_Cons)
    moreover have "\<forall>i \<in> set (keys (bt_insert k v m)). j < i"
      using 2(2) greater unfolding set_keys_bt_insert by (simp add: bt_wf_Cons)
    ultimately have "bt_wf ((j, w) # bt_insert k v m)"
      unfolding bt_wf_Cons by blast
    with greater show ?thesis by auto
  qed
qed

lemma map_of_bt_insert [simp, map_laws]: "map_of (bt_insert k v m) = (map_of m)(k \<mapsto> v)"
  by (induction k v m rule: bt_insert.induct) (auto simp: fun_eq_iff)

lemma map_of_bt_remove [simp, map_laws]: "map_of (bt_remove k m) = (map_of m)(k := None)"
  by (induction m) (auto simp: bt_remove_def fun_eq_iff)

lemma bt_wf_remove [simp]: "bt_wf m \<Longrightarrow> bt_wf (bt_remove k m)"
  by (simp add: bt_wf_def bt_remove_def sorted_wrt_map sorted_wrt_filter)

lemma length_bt_remove: "map_of m k \<noteq> None \<Longrightarrow> length (bt_remove k m) < length m"
proof -
  assume "map_of m k \<noteq> None"
  then obtain v where "(k, v) \<in> set m" by (auto dest: map_of_SomeD)
  then show ?thesis
    unfolding bt_remove_def by (intro length_filter_less [where x="(k, v)"]) auto
qed

lemma bt_wf_distinct: "bt_wf m \<Longrightarrow> distinct (keys m)"
  by (simp add: bt_wf_def strict_sorted_iff)

subsection \<open>Hash maps\<close>

text \<open>
  \<^verbatim>\<open>HashMap\<close>: an association list with distinct keys.  \<^verbatim>\<open>insert\<close> is
  \<^const>\<open>AList.update\<close>, \<^verbatim>\<open>remove\<close> is \<^const>\<open>AList.delete\<close>, \<^verbatim>\<open>get\<close> is \<^const>\<open>map_of\<close>; the order of
  the list stands for the unspecified iteration order.
\<close>

type_synonym ('k, 'v) hmap = "('k \<times> 'v) list"

abbreviation hm_insert :: "'k \<Rightarrow> 'v \<Rightarrow> ('k, 'v) hmap \<Rightarrow> ('k, 'v) hmap" where
  "hm_insert \<equiv> AList.update"

abbreviation hm_remove :: "'k \<Rightarrow> ('k, 'v) hmap \<Rightarrow> ('k, 'v) hmap" where
  "hm_remove \<equiv> AList.delete"

lemma map_of_hm_insert [simp, map_laws]: "map_of (hm_insert k v m) = (map_of m)(k \<mapsto> v)"
  by (rule update_conv')

lemma map_of_hm_remove [simp, map_laws]: "map_of (hm_remove k m) = (map_of m)(k := None)"
  by (rule delete_conv')

lemma keys_hm_remove: "set (keys (hm_remove k m)) = set (keys m) - {k}"
  by (auto simp: delete_keys)

lemma keys_hm_insert: "set (keys (hm_insert k v m)) = insert k (set (keys m))"
  by (auto simp: update_keys)

lemma distinct_hm_insert [simp]: "distinct (keys m) \<Longrightarrow> distinct (keys (hm_insert k v m))"
  by (rule distinct_update)

lemma distinct_hm_remove [simp]: "distinct (keys m) \<Longrightarrow> distinct (keys (hm_remove k m))"
  by (rule distinct_delete)

subsection \<open>Lists\<close>

definition list_get :: "'a list \<Rightarrow> nat \<Rightarrow> 'a option" where
  "list_get xs i = (if i < length xs then Some (xs ! i) else None)"

lemma list_get_simps [simp]:
  "i < length xs \<Longrightarrow> list_get xs i = Some (xs ! i)"
  "length xs \<le> i \<Longrightarrow> list_get xs i = None"
  by (simp_all add: list_get_def)

definition slice :: "nat \<Rightarrow> nat \<Rightarrow> 'a list \<Rightarrow> 'a list" where
  "slice i j xs = take (j - i) (drop i xs)"

lemma length_slice [simp]: "j \<le> length xs \<Longrightarrow> length (slice i j xs) = j - i"
  by (simp add: slice_def)

lemma nth_slice [simp]: "j \<le> length xs \<Longrightarrow> n < j - i \<Longrightarrow> slice i j xs ! n = xs ! (i + n)"
  by (simp add: slice_def)

text \<open>\<^verbatim>\<open>buf[i..i + src.len()].copy_from_slice(src)\<close> inside the buffer.\<close>

definition copy_at :: "nat \<Rightarrow> 'a list \<Rightarrow> 'a list \<Rightarrow> 'a list" where
  "copy_at i src buf = take i buf @ src @ drop (i + length src) buf"

lemma length_copy_at [simp]: "i + length src \<le> length buf \<Longrightarrow> length (copy_at i src buf) = length buf"
  by (simp add: copy_at_def)

lemma copy_at_simps [simp]:
  "copy_at 0 [] buf = buf"
  "copy_at 0 (s # ss) (b # buf) = s # copy_at 0 ss buf"
  "copy_at (Suc i) src (b # buf) = b # copy_at i src buf"
  "copy_at (numeral k) src (b # buf) = b # copy_at (pred_numeral k) src buf"
  by (simp_all add: copy_at_def numeral_eq_Suc)

lemma copy_at_all: "length src = length buf \<Longrightarrow> copy_at 0 src buf = src"
  by (simp add: copy_at_def)

lemma list_update_numeral [simp]: "(x # xs)[numeral k := v] = x # xs[pred_numeral k := v]"
  by (simp add: numeral_eq_Suc)

lemma copy_at_nth:
  "i + length src \<le> length buf \<Longrightarrow> n < length buf \<Longrightarrow>
   copy_at i src buf ! n = (if i \<le> n \<and> n < i + length src then src ! (n - i) else buf ! n)"
  by (auto simp: copy_at_def nth_append min_def)

lemma take_copy_at:
  "i + length src \<le> m \<Longrightarrow> m \<le> length buf \<Longrightarrow> take m (copy_at i src buf) = copy_at i src (take m buf)"
  by (rule nth_equalityI) (simp_all add: copy_at_nth)

lemma drop_copy_at:
  "i + length src \<le> m \<Longrightarrow> i \<le> length buf \<Longrightarrow> drop m (copy_at i src buf) = drop m buf"
  by (simp add: copy_at_def)

lemma copy_at_again:
  "i \<le> length buf \<Longrightarrow> length s1 = length s2 \<Longrightarrow> copy_at i s1 (copy_at i s2 buf) = copy_at i s1 buf"
  by (simp add: copy_at_def)

lemma slice_copy_at:
  "length src = j - i \<Longrightarrow> i \<le> j \<Longrightarrow> j \<le> length buf \<Longrightarrow> slice i j (copy_at i src buf) = src"
  by (simp add: slice_def copy_at_def)

lemma list_at_least_4: "4 \<le> length xs \<Longrightarrow> \<exists>a b c d rest. xs = a # b # c # d # rest"
  by (auto simp: numeral_eq_Suc Suc_le_length_iff)

lemma drop_take_split: "take n (drop i xs) @ drop (i + n) xs = drop i xs"
  using append_take_drop_id [of n "drop i xs"] by (simp add: add.commute)

lemma find_in_set: "find P xs = Some x \<Longrightarrow> x \<in> set xs \<and> P x"
  by (induction xs) (auto split: if_splits)

subsection \<open>Repeating an operation\<close>

fun repeat_op :: "nat \<Rightarrow> ('s \<Rightarrow> 's \<times> 'r) \<Rightarrow> 's \<Rightarrow> 's \<times> 'r list" where
  "repeat_op 0 op s = (s, [])"
| "repeat_op (Suc n) op s = (let (s', r) = op s; (s'', rs) = repeat_op n op s' in (s'', r # rs))"

end
