(* ===== verification/Scheduler.thy ===== *)
theory Scheduler
  imports Prelude
begin

text \<open>
  The path schedulers of \<^verbatim>\<open>bonded-core/src/scheduler.rs\<close>: the \<^verbatim>\<open>Scheduler\<close> trait as
  an interface, and its two implementations.
\<close>

datatype PathId = PathId u32

record RoundRobinScheduler =
  next_index :: usize

datatype ActiveStandbyScheduler = ActiveStandbyScheduler

definition rr_default :: RoundRobinScheduler where
  "rr_default = \<lparr> next_index = 0 \<rparr>"

definition rr_choose_path ::
  "RoundRobinScheduler \<Rightarrow> PathId list \<Rightarrow> RoundRobinScheduler \<times> PathId option" where
  "rr_choose_path s available_paths =
     (if available_paths = [] then (s, None)
      else let idx = unat (next_index s) mod length available_paths
           in (s\<lparr> next_index := next_index s + 1 \<rparr>, Some (available_paths ! idx)))"

definition as_choose_path ::
  "ActiveStandbyScheduler \<Rightarrow> PathId list \<Rightarrow> ActiveStandbyScheduler \<times> PathId option" where
  "as_choose_path s available_paths = (s, list_get available_paths 0)"

text \<open>Consecutive choices over a fixed set of paths.\<close>

fun rr_picks :: "RoundRobinScheduler \<Rightarrow> PathId list \<Rightarrow> nat \<Rightarrow> PathId option list" where
  "rr_picks s paths 0 = []"
| "rr_picks s paths (Suc n) =
     (let (s', p) = rr_choose_path s paths in p # rr_picks s' paths n)"

subsection \<open>The trait's contract\<close>

locale path_scheduler =
  fixes pick :: "'s \<Rightarrow> 'p list \<Rightarrow> 's \<times> 'p option"
  assumes pick_None_iff: "snd (pick s ps) = None \<longleftrightarrow> ps = []"
    and pick_member: "snd (pick s ps) = Some p \<Longrightarrow> p \<in> set ps"
begin

fun choices :: "'s \<Rightarrow> 'p list list \<Rightarrow> 'p option list" where
  "choices s [] = []"
| "choices s (ps # pss) = snd (pick s ps) # choices (fst (pick s ps)) pss"

lemma choices_available:
  "list_all2 (\<lambda>c ps. case c of None \<Rightarrow> ps = [] | Some p \<Rightarrow> p \<in> set ps) (choices s pss) pss"
proof (induction pss arbitrary: s)
  case (Cons ps pss)
  then show ?case
    using pick_None_iff [of s ps] pick_member [of s ps] by (auto split: option.split)
qed simp

end

interpretation rr: path_scheduler rr_choose_path
  by unfold_locales (auto simp: rr_choose_path_def Let_def split: if_splits)

interpretation standby: path_scheduler as_choose_path
  by unfold_locales (auto simp: as_choose_path_def list_get_def split: if_splits)

lemma rr_picks_nth:
  assumes "paths \<noteq> []" "unat (next_index s) + n \<le> 2 ^ 64"
  shows "rr_picks s paths n =
    map (\<lambda>i. Some (paths ! ((unat (next_index s) + i) mod length paths))) [0..<n]"
  using assms(2)
proof (induction n arbitrary: s)
  case (Suc n)
  let ?s = "s\<lparr> next_index := next_index s + 1 \<rparr>"
  show ?case
  proof (cases n)
    case 0
    with assms(1) show ?thesis by (simp add: rr_choose_path_def Let_def)
  next
    case (Suc m)
    with Suc.prems have "unat (next_index ?s) = Suc (unat (next_index s))"
      by (simp add: unat_Suc_word)
    with Suc.prems Suc.IH [of ?s] assms(1) show ?thesis
      by (simp add: rr_choose_path_def Let_def map_upt_Suc del: upt_Suc)
  qed
qed simp

lemma rotate_as_map:
  "xs \<noteq> [] \<Longrightarrow> map (\<lambda>i. xs ! ((k + i) mod length xs)) [0..<length xs] = rotate k xs"
  by (rule nth_equalityI) (simp_all add: nth_rotate add.commute)

subsection \<open>Properties\<close>

text \<open>
  C4.  Over an unchanged list of available paths, as many consecutive choices of the
  round-robin scheduler as there are paths form a rotation of the list, so every
  path carries exactly one of them (the counter not wrapping in between).
\<close>

theorem round_robin_fair:
  assumes "paths \<noteq> []" "unat (next_index s) + length paths \<le> 2 ^ 64"
  shows "rr_picks s paths (length paths) =
    map Some (rotate (unat (next_index s)) paths)"
  unfolding rr_picks_nth [OF assms] rotate_as_map [OF assms(1), symmetric] by simp

theorem round_robin_fair_witness:
  "rr_picks \<lparr> next_index = 4 \<rparr> [PathId 0, PathId 1, PathId 2] (length [PathId 0, PathId 1, PathId 2]) =
     [Some (PathId 1), Some (PathId 2), Some (PathId 0)]"
proof -
  let ?paths = "[PathId 0, PathId 1, PathId 2]" and ?s = "\<lparr> next_index = 4 \<rparr>"
  have "?paths \<noteq> []" "unat (next_index ?s) + length ?paths \<le> 2 ^ 64" by simp_all
  note round_robin_fair [OF this]
  also have "map Some (rotate (unat (next_index ?s)) ?paths) = [Some (PathId 1), Some (PathId 2), Some (PathId 0)]"
    by code_simp
  finally show ?thesis .
qed

end
