(* ===== verification/Session.thy ===== *)
theory Session
  imports Prelude
begin

text \<open>
  Session frames and the per-session state of \<^verbatim>\<open>bonded-core/src/session.rs\<close>: the
  16-byte header codec, the outbound sequence counter and the inbound reorder
  buffer.
\<close>

subsection \<open>Frames\<close>

definition HEADER_LEN :: nat where "HEADER_LEN = 16"
definition FLAG_PING :: u32 where "FLAG_PING = 1"
definition FLAG_PONG :: u32 where "FLAG_PONG = 2"
definition FLAG_PEER_RELAY_REGISTRATION :: u32 where "FLAG_PEER_RELAY_REGISTRATION = 4"

record SessionHeader =
  h_connection_id :: u32
  h_sequence :: u64
  h_flags :: u32

record SessionFrame =
  f_header :: SessionHeader
  f_payload :: bytes

datatype FrameError = BufferTooSmall nat nat

definition encode :: "SessionFrame \<Rightarrow> bytes" where
  "encode f =
     put_u32 (h_connection_id (f_header f))
     @ put_u64 (h_sequence (f_header f))
     @ put_u32 (h_flags (f_header f))
     @ f_payload f"

definition decode :: "bytes \<Rightarrow> (FrameError, SessionFrame) res" where
  "decode raw =
     (if length raw < HEADER_LEN then Err (BufferTooSmall (length raw) HEADER_LEN)
      else
        let connection_id = get_u32 raw; raw = drop 4 raw;
            sequence = get_u64 raw; raw = drop 8 raw;
            flags = get_u32 raw; payload = drop 4 raw
        in Ok \<lparr> f_header = \<lparr> h_connection_id = connection_id, h_sequence = sequence,
                            h_flags = flags \<rparr>,
               f_payload = payload \<rparr>)"

subsection \<open>Session state\<close>

datatype SessionStateError =
  ConnectionMismatch u32 u32
| StaleSequence u64 u64

record SessionState =
  connection_id :: u32
  next_tx_sequence :: u64
  next_rx_sequence :: u64
  reorder_buffer :: "(u64, SessionFrame) btree"

definition session_new :: "u32 \<Rightarrow> SessionState" where
  "session_new c = \<lparr> connection_id = c, next_tx_sequence = 0, next_rx_sequence = 0,
                     reorder_buffer = [] \<rparr>"

definition expected_rx_sequence :: "SessionState \<Rightarrow> u64" where
  "expected_rx_sequence s = next_rx_sequence s"

definition create_outbound_frame ::
  "SessionState \<Rightarrow> bytes \<Rightarrow> u32 \<Rightarrow> SessionState \<times> SessionFrame" where
  "create_outbound_frame s payload flags =
     (s\<lparr> next_tx_sequence := next_tx_sequence s + 1 \<rparr>,
      \<lparr> f_header = \<lparr> h_connection_id = connection_id s, h_sequence = next_tx_sequence s,
                      h_flags = flags \<rparr>,
        f_payload = payload \<rparr>)"

text \<open>The \<^verbatim>\<open>while let Some(next) = reorder_buffer.remove(&next_rx_sequence)\<close> loop.\<close>

function drain_ready ::
  "u64 \<Rightarrow> (u64, SessionFrame) btree \<Rightarrow> SessionFrame list \<times> u64 \<times> (u64, SessionFrame) btree" where
  "drain_ready next buf =
     (case map_of buf next of
        None \<Rightarrow> ([], next, buf)
      | Some f \<Rightarrow>
          let (ready, n, b) = drain_ready (next + 1) (bt_remove next buf) in (f # ready, n, b))"
  by pat_completeness auto
termination
  by (relation "measure (\<lambda>(_, buf). length buf)") (simp_all add: length_bt_remove)

declare drain_ready.simps [simp del]

definition or_insert :: "'k::linorder \<Rightarrow> 'v \<Rightarrow> ('k, 'v) btree \<Rightarrow> ('k, 'v) btree" where
  "or_insert k v m = (case map_of m k of None \<Rightarrow> bt_insert k v m | Some _ \<Rightarrow> m)"

definition ingest_inbound ::
  "SessionState \<Rightarrow> SessionFrame \<Rightarrow> SessionState \<times> (SessionStateError, SessionFrame list) res" where
  "ingest_inbound s frame =
     (if h_connection_id (f_header frame) \<noteq> connection_id s
      then (s, Err (ConnectionMismatch (connection_id s) (h_connection_id (f_header frame))))
      else if h_sequence (f_header frame) < next_rx_sequence s
      then (s, Err (StaleSequence (next_rx_sequence s) (h_sequence (f_header frame))))
      else
        let buf = or_insert (h_sequence (f_header frame)) frame (reorder_buffer s);
            (ready, n, buf') = drain_ready (next_rx_sequence s) buf
        in (s\<lparr> next_rx_sequence := n, reorder_buffer := buf' \<rparr>, Ok ready))"

text \<open>
  A sender that frames a list of payloads, and a receiver that hands every
  arriving frame to \<^const>\<open>ingest_inbound\<close>, ignores the rejected ones and collects
  what becomes ready.
\<close>

fun send_all :: "SessionState \<Rightarrow> (bytes \<times> u32) list \<Rightarrow> SessionState \<times> SessionFrame list" where
  "send_all s [] = (s, [])"
| "send_all s ((p, fl) # ps) =
     (let (s', f) = create_outbound_frame s p fl; (s'', fs) = send_all s' ps in (s'', f # fs))"

fun ingest_all :: "SessionState \<Rightarrow> SessionFrame list \<Rightarrow> SessionState \<times> SessionFrame list" where
  "ingest_all s [] = (s, [])"
| "ingest_all s (f # fs) =
     (let (s', r) = ingest_inbound s f; (s'', out) = ingest_all s' fs
      in (s'', (case r of Inl _ \<Rightarrow> [] | Inr ready \<Rightarrow> ready) @ out))"

subsection \<open>Invariant of the reorder buffer\<close>

text \<open>
  Every buffered frame waits for an earlier one: it is stored under its own
  sequence, belongs to the session and lies strictly above the next expected
  sequence.
\<close>

definition session_inv :: "SessionState \<Rightarrow> bool" where
  "session_inv s \<longleftrightarrow> bt_wf (reorder_buffer s) \<and>
     (\<forall>k f. map_of (reorder_buffer s) k = Some f \<longrightarrow>
        next_rx_sequence s < k \<and> h_sequence (f_header f) = k \<and>
        h_connection_id (f_header f) = connection_id s)"

subsection \<open>Codec\<close>

lemma length_encode [simp, codec_simps]: "length (encode f) = HEADER_LEN + length (f_payload f)"
  by (simp add: encode_def HEADER_LEN_def)

lemma decode_encode [simp, codec_simps]: "decode (encode f) = Ok f"
proof -
  have "\<not> length (encode f) < HEADER_LEN" by simp
  moreover have "get_u32 (encode f) = h_connection_id (f_header f)"
    by (simp add: encode_def)
  moreover have "drop 4 (encode f) = put_u64 (h_sequence (f_header f)) @
      put_u32 (h_flags (f_header f)) @ f_payload f"
    by (simp add: encode_def)
  ultimately show ?thesis by (simp add: decode_def Let_def)
qed

lemma decode_Ok_iff: "decode raw = Ok f \<longleftrightarrow> raw = encode f"
proof
  assume dec: "decode raw = Ok f"
  then have len: "16 \<le> length raw"
    by (auto simp: decode_def HEADER_LEN_def Let_def split: if_splits)
  let ?r4 = "drop 4 raw" and ?r12 = "drop 8 (drop 4 raw)"
  have "raw = take 4 raw @ take 8 ?r4 @ take 4 ?r12 @ drop 4 ?r12"
    by (simp only: append_take_drop_id)
  also have "\<dots> = put_u32 (get_u32 raw) @ put_u64 (get_u64 ?r4) @ put_u32 (get_u32 ?r12) @ drop 4 ?r12"
    using len by (simp add: put_get_u32 put_get_u64)
  also have "\<dots> = encode f"
    using dec len by (auto simp: decode_def encode_def HEADER_LEN_def Let_def)
  finally show "raw = encode f" .
qed simp

lemma decode_Err_iff: "(\<exists>e. decode raw = Err e) \<longleftrightarrow> length raw < HEADER_LEN"
  by (simp add: decode_def Let_def)

subsection \<open>Inbound ordering\<close>

lemma map_of_or_insert [map_laws]:
  "map_of (or_insert k v m) j = (if j = k \<and> map_of m k = None then Some v else map_of m j)"
  by (auto simp: or_insert_def split: option.split)

lemma bt_wf_or_insert [simp]: "bt_wf m \<Longrightarrow> bt_wf (or_insert k v m)"
  by (simp add: or_insert_def split: option.split)

lemma drain_ready_None: "map_of buf n = None \<Longrightarrow> drain_ready n buf = ([], n, buf)"
  by (subst drain_ready.simps) simp

lemma drain_ready_Some:
  "map_of buf n = Some f \<Longrightarrow> drain_ready n buf =
     (f # fst (drain_ready (n + 1) (bt_remove n buf)), snd (drain_ready (n + 1) (bt_remove n buf)))"
  by (subst drain_ready.simps) (simp add: case_prod_beta)

lemma drain_ready_wf: "bt_wf buf \<Longrightarrow> bt_wf (snd (snd (drain_ready n buf)))"
proof (induction n buf rule: drain_ready.induct)
  case (1 n buf)
  then show ?case
    by (cases "map_of buf n") (simp_all add: drain_ready_None drain_ready_Some)
qed

lemma drain_ready_sub:
  "map_of (snd (snd (drain_ready n buf))) k = Some f \<Longrightarrow> map_of buf k = Some f"
proof (induction n buf rule: drain_ready.induct)
  case (1 n buf)
  then show ?case
    by (cases "map_of buf n") (auto simp: drain_ready_None drain_ready_Some split: if_splits)
qed

lemma drain_ready_next_le:
  "(\<forall>k f. map_of buf k = Some f \<longrightarrow> n \<le> k) \<Longrightarrow> map_of (snd (snd (drain_ready n buf))) k = Some f \<Longrightarrow>
   fst (snd (drain_ready n buf)) < k"
proof (induction n buf rule: drain_ready.induct)
  case (1 n buf)
  show ?case
  proof (cases "map_of buf n")
    case None
    with 1(2,3) have "n \<le> k" "n \<noteq> k" by (auto simp: drain_ready_None)
    with None show ?thesis by (simp add: drain_ready_None)
  next
    case (Some g)
    have "n + 1 \<le> j" if "map_of (bt_remove n buf) j = Some h" for j h
    proof -
      from that have "n \<le> j" "n \<noteq> j" using 1(2) by (auto split: if_splits)
      then show ?thesis by (simp add: inc_le)
    qed
    with 1(1) [OF Some] 1(3) Some show ?thesis by (simp add: drain_ready_Some)
  qed
qed

lemma session_invI:
  assumes "bt_wf (reorder_buffer s)"
    and "\<And>k f. map_of (reorder_buffer s) k = Some f \<Longrightarrow> next_rx_sequence s < k \<and>
      h_sequence (f_header f) = k \<and> h_connection_id (f_header f) = connection_id s"
  shows "session_inv s"
  using assms unfolding session_inv_def by blast

lemma session_invD:
  assumes "session_inv s" "map_of (reorder_buffer s) k = Some f"
  shows "next_rx_sequence s < k \<and> h_sequence (f_header f) = k \<and>
      h_connection_id (f_header f) = connection_id s"
  using assms unfolding session_inv_def by blast

lemma session_inv_new [simp]: "session_inv (session_new c)"
  by (simp add: session_inv_def session_new_def)

lemma session_inv_create_outbound:
  "session_inv s \<Longrightarrow> session_inv (fst (create_outbound_frame s p fl))"
  by (simp add: session_inv_def create_outbound_frame_def)

lemma ingest_inbound_accept:
  assumes "h_connection_id (f_header f) = connection_id s"
    and "\<not> h_sequence (f_header f) < next_rx_sequence s"
  shows "ingest_inbound s f =
    (let d = drain_ready (next_rx_sequence s) (or_insert (h_sequence (f_header f)) f (reorder_buffer s))
     in (s\<lparr> next_rx_sequence := fst (snd d), reorder_buffer := snd (snd d) \<rparr>, Ok (fst d)))"
  using assms by (simp add: ingest_inbound_def Let_def case_prod_beta)

lemma ingest_inbound_reject:
  assumes "h_connection_id (f_header f) \<noteq> connection_id s \<or> h_sequence (f_header f) < next_rx_sequence s"
  shows "fst (ingest_inbound s f) = s" "\<exists>e. snd (ingest_inbound s f) = Err e"
  using assms by (auto simp: ingest_inbound_def)

lemma session_inv_ingest_inbound:
  assumes "session_inv s"
  shows "session_inv (fst (ingest_inbound s f))"
proof (cases "h_connection_id (f_header f) \<noteq> connection_id s \<or> h_sequence (f_header f) < next_rx_sequence s")
  case True
  with assms show ?thesis by (simp add: ingest_inbound_reject)
next
  case False': False
  let ?b = "or_insert (h_sequence (f_header f)) f (reorder_buffer s)" and ?n = "next_rx_sequence s"
  let ?d = "drain_ready ?n ?b"
  have old: "?n \<le> k \<and> h_sequence (f_header g) = k \<and> h_connection_id (f_header g) = connection_id s"
    if "map_of ?b k = Some g" for k g
  proof (cases "k = h_sequence (f_header f) \<and> map_of (reorder_buffer s) k = None")
    case True
    with that have "g = f" by (auto simp: map_of_or_insert)
    with True False' show ?thesis by (simp add: not_less)
  next
    case False
    with that have "map_of (reorder_buffer s) k = Some g" by (auto simp: map_of_or_insert)
    then show ?thesis using session_invD [OF assms] less_imp_le by blast
  qed
  then have ge: "\<forall>k g. map_of ?b k = Some g \<longrightarrow> ?n \<le> k" by blast
  have "bt_wf ?b" using assms by (simp add: session_inv_def)
  then have wf: "bt_wf (snd (snd ?d))" by (rule drain_ready_wf)
  have eq: "fst (ingest_inbound s f) = s\<lparr> next_rx_sequence := fst (snd ?d), reorder_buffer := snd (snd ?d) \<rparr>"
    using False' by (simp add: ingest_inbound_accept Let_def)
  show ?thesis
    unfolding eq
  proof (rule session_invI, goal_cases)
    case 1
    from wf show ?case by simp
  next
    case (2 k g)
    then have "map_of (snd (snd ?d)) k = Some g" by simp
    from drain_ready_next_le [OF ge this] old [OF drain_ready_sub [OF this]] show ?case by simp
  qed
qed

lemma ingest_inbound_Err_unchanged:
  "snd (ingest_inbound s f) = Err e \<Longrightarrow> fst (ingest_inbound s f) = s"
  by (cases "h_connection_id (f_header f) \<noteq> connection_id s \<or> h_sequence (f_header f) < next_rx_sequence s")
    (simp_all add: ingest_inbound_reject ingest_inbound_accept Let_def)

subsection \<open>The abstract receiver\<close>

text \<open>
  A stream numbered from zero is received by handing out its longest prefix all
  of whose frames have arrived.  \<open>rx_rep fs A s\<close> says that the concrete state
  \<open>s\<close> represents the abstract receiver of the stream \<open>fs\<close> after the set \<open>A\<close> of
  frames arrived.
\<close>

definition stream :: "u32 \<Rightarrow> SessionFrame list \<Rightarrow> bool" where
  "stream c fs \<longleftrightarrow> length fs < 2 ^ 64 \<and>
     (\<forall>i < length fs. h_connection_id (f_header (fs ! i)) = c \<and> h_sequence (f_header (fs ! i)) = of_nat i)"

definition in_order_prefix :: "SessionFrame set \<Rightarrow> SessionFrame list \<Rightarrow> SessionFrame list" where
  "in_order_prefix A fs = takeWhile (\<lambda>f. f \<in> A) fs"

definition buf_rep :: "SessionFrame list \<Rightarrow> SessionFrame set \<Rightarrow> nat \<Rightarrow> (u64, SessionFrame) btree \<Rightarrow> bool" where
  "buf_rep fs A k buf \<longleftrightarrow> (\<forall>s. map_of buf s =
     (if k \<le> unat s \<and> unat s < length fs \<and> fs ! unat s \<in> A then Some (fs ! unat s) else None))"

definition rx_rep :: "SessionFrame list \<Rightarrow> SessionFrame set \<Rightarrow> SessionState \<Rightarrow> bool" where
  "rx_rep fs A s \<longleftrightarrow> (let k = length (in_order_prefix A fs) in
     next_rx_sequence s = of_nat k \<and> buf_rep fs A k (reorder_buffer s))"

lemma stream_unat: "stream c fs \<Longrightarrow> i \<le> length fs \<Longrightarrow> unat (of_nat i :: u64) = i"
  by (simp add: stream_def unsigned_of_nat take_bit_eq_mod)

lemma buf_rep_remove:
  assumes "stream c fs" "k < length fs" "buf_rep fs A k buf"
  shows "buf_rep fs A (Suc k) (bt_remove (of_nat k) buf)"
proof -
  have u: "unat (of_nat k :: u64) = k"
    using stream_unat [OF assms(1), of k] assms(2) by simp
  show ?thesis
    unfolding buf_rep_def
  proof
    fix s :: u64
    show "map_of (bt_remove (of_nat k) buf) s = (if Suc k \<le> unat s \<and> unat s < length fs \<and> fs ! unat s \<in> A
        then Some (fs ! unat s) else None)"
    proof (cases "s = of_nat k")
      case True
      with u show ?thesis by simp
    next
      case False
      then have "k \<noteq> unat s" by auto
      with False assms(3) [unfolded buf_rep_def, rule_format, of s] show ?thesis by auto
    qed
  qed
qed

lemma drain_ready_rep:
  assumes "stream c fs"
  shows "n = of_nat k \<Longrightarrow> k \<le> length fs \<Longrightarrow> buf_rep fs A k buf \<Longrightarrow>
     (let ready = in_order_prefix A (drop k fs); k' = k + length ready in
        fst (drain_ready n buf) = ready \<and> fst (snd (drain_ready n buf)) = of_nat k' \<and>
        buf_rep fs A k' (snd (snd (drain_ready n buf))))"
proof (induction n buf arbitrary: k rule: drain_ready.induct)
  case (1 n buf)
  have u: "unat n = k" using stream_unat [OF assms 1(3)] 1(2) by simp
  show ?case
  proof (cases "k < length fs \<and> fs ! k \<in> A")
    case False
    then have none: "map_of buf n = None" using 1(4) u by (simp add: buf_rep_def)
    have "in_order_prefix A (drop k fs) = []"
      using False by (cases "k < length fs") (simp_all add: in_order_prefix_def flip: Cons_nth_drop_Suc)
    with none 1(2,4) show ?thesis by (simp add: drain_ready_None)
  next
    case True
    let ?b = "bt_remove n buf"
    have some: "map_of buf n = Some (fs ! k)" using 1(4) u True by (simp add: buf_rep_def)
    have hd: "in_order_prefix A (drop k fs) = fs ! k # in_order_prefix A (drop (Suc k) fs)"
      using True by (simp add: in_order_prefix_def flip: Cons_nth_drop_Suc)
    have "buf_rep fs A (Suc k) ?b"
      using buf_rep_remove [OF assms _ 1(4)] True 1(2) by simp
    moreover have "n + 1 = of_nat (Suc k)" using 1(2) by simp
    moreover have "Suc k \<le> length fs" using True by simp
    ultimately have "let ready = in_order_prefix A (drop (Suc k) fs); k' = Suc k + length ready in
        fst (drain_ready (n + 1) ?b) = ready \<and> fst (snd (drain_ready (n + 1) ?b)) = of_nat k' \<and>
        buf_rep fs A k' (snd (snd (drain_ready (n + 1) ?b)))"
      using 1(1) [OF some, of "Suc k"] by blast
    then show ?thesis
      unfolding drain_ready_Some [OF some] hd by (simp add: Let_def)
  qed
qed

lemma stream_seq_inj:
  assumes "stream c fs" "i < length fs" "j < length fs" "fs ! i = fs ! j"
  shows "i = j"
proof -
  from assms have "(of_nat i :: u64) = of_nat j" by (metis stream_def)
  then show ?thesis using stream_unat [OF assms(1)] assms(2,3) by (metis less_imp_le)
qed

lemma buf_rep_or_insert:
  assumes "stream c fs" "j < length fs" "k \<le> j" "buf_rep fs A k buf"
  shows "buf_rep fs (insert (fs ! j) A) k (or_insert (of_nat j) (fs ! j) buf)"
  unfolding buf_rep_def
proof
  fix s :: u64
  have u: "unat (of_nat j :: u64) = j" using stream_unat [OF assms(1)] assms(2) by simp
  note look = assms(4) [unfolded buf_rep_def, rule_format]
  show "map_of (or_insert (of_nat j) (fs ! j) buf) s =
      (if k \<le> unat s \<and> unat s < length fs \<and> fs ! unat s \<in> insert (fs ! j) A
       then Some (fs ! unat s) else None)"
  proof (cases "s = of_nat j")
    case True
    with u assms(2,3) look [of "of_nat j"] show ?thesis
      by (auto simp: map_of_or_insert)
  next
    case False
    then have "unat s \<noteq> j" by auto
    then have "unat s < length fs \<Longrightarrow> fs ! unat s \<noteq> fs ! j"
      using stream_seq_inj [OF assms(1) _ assms(2)] by blast
    with False look [of s] show ?thesis by (auto simp: map_of_or_insert)
  qed
qed

lemma in_order_prefix_split:
  assumes "A \<subseteq> B"
  shows "in_order_prefix B fs =
    in_order_prefix A fs @ in_order_prefix B (drop (length (in_order_prefix A fs)) fs)"
proof -
  let ?k = "length (in_order_prefix A fs)"
  have t: "take ?k fs = in_order_prefix A fs"
    unfolding in_order_prefix_def by (metis takeWhile_eq_take)
  have "in_order_prefix B (take ?k fs @ drop ?k fs) = take ?k fs @ in_order_prefix B (drop ?k fs)"
    unfolding in_order_prefix_def
  proof (rule takeWhile_append2)
    fix x assume "x \<in> set (take (length (takeWhile (\<lambda>f. f \<in> A) fs)) fs)"
    with t have "x \<in> set (takeWhile (\<lambda>f. f \<in> A) fs)" by (simp add: in_order_prefix_def)
    with assms show "x \<in> B" by (auto dest: set_takeWhileD)
  qed
  with t show ?thesis by (metis append_take_drop_id)
qed

definition ready_of :: "('e, SessionFrame list) res \<Rightarrow> SessionFrame list" where
  "ready_of r = (case r of Inl _ \<Rightarrow> [] | Inr ready \<Rightarrow> ready)"

lemma rx_rep_ingest:
  assumes st: "stream c fs" and c: "connection_id s = c" and rep: "rx_rep fs A s" and f: "f \<in> set fs"
  shows "rx_rep fs (insert f A) (fst (ingest_inbound s f))"
    and "connection_id (fst (ingest_inbound s f)) = c"
    and "in_order_prefix (insert f A) fs = in_order_prefix A fs @ ready_of (snd (ingest_inbound s f))"
proof -
  let ?k = "length (in_order_prefix A fs)" and ?A = "insert f A"
  from f obtain j where j: "j < length fs" "f = fs ! j" by (auto simp: in_set_conv_nth)
  have k: "?k \<le> length fs" by (simp add: in_order_prefix_def length_takeWhile_le)
  have nxt: "next_rx_sequence s = of_nat ?k" and buf: "buf_rep fs A ?k (reorder_buffer s)"
    using rep by (simp_all add: rx_rep_def Let_def)
  have hdr: "h_connection_id (f_header f) = c" "h_sequence (f_header f) = of_nat j"
    using st j by (auto simp: stream_def)
  have less: "h_sequence (f_header f) < next_rx_sequence s \<longleftrightarrow> j < ?k"
    using stream_unat [OF st less_imp_le [OF j(1)]] stream_unat [OF st k]
    unfolding hdr nxt by (simp add: word_less_nat_alt)
  have "rx_rep fs ?A (fst (ingest_inbound s f)) \<and> connection_id (fst (ingest_inbound s f)) = c \<and>
    in_order_prefix ?A fs = in_order_prefix A fs @ ready_of (snd (ingest_inbound s f))"
  proof (cases "j < ?k")
    case True
    then have "f \<in> A"
      unfolding j(2) in_order_prefix_def by (metis nth_mem set_takeWhileD takeWhile_nth)
    then have "?A = A" by blast
    with True less c rep ingest_inbound_reject [of f s] show ?thesis
      by (auto simp: ready_of_def)
  next
    case False
    let ?d = "drain_ready (of_nat ?k) (or_insert (of_nat j) f (reorder_buffer s))"
    have "buf_rep fs ?A ?k (or_insert (of_nat j) f (reorder_buffer s))"
      using buf_rep_or_insert [OF st j(1) _ buf] False j(2) by simp
    from drain_ready_rep [OF st refl k this]
    have d: "fst ?d = in_order_prefix ?A (drop ?k fs)"
      "fst (snd ?d) = of_nat (?k + length (in_order_prefix ?A (drop ?k fs)))"
      "buf_rep fs ?A (?k + length (in_order_prefix ?A (drop ?k fs))) (snd (snd ?d))"
      by (simp_all add: Let_def)
    have split: "in_order_prefix ?A fs = in_order_prefix A fs @ in_order_prefix ?A (drop ?k fs)"
      by (rule in_order_prefix_split) blast
    have ing: "ingest_inbound s f =
        (s\<lparr> next_rx_sequence := fst (snd ?d), reorder_buffer := snd (snd ?d) \<rparr>, Ok (fst ?d))"
      using ingest_inbound_accept [of f s] hdr c less False by (simp add: nxt Let_def)
    show ?thesis
      unfolding rx_rep_def split Let_def by (simp add: ing d c ready_of_def)
  qed
  then show "rx_rep fs ?A (fst (ingest_inbound s f))" "connection_id (fst (ingest_inbound s f)) = c"
    "in_order_prefix ?A fs = in_order_prefix A fs @ ready_of (snd (ingest_inbound s f))"
    by blast+
qed

lemma ingest_all_prefix:
  assumes "stream c fs" "connection_id s = c" "rx_rep fs A s" "set arrivals \<subseteq> set fs"
  shows "in_order_prefix A fs @ snd (ingest_all s arrivals) = in_order_prefix (A \<union> set arrivals) fs"
  using assms(2-4)
proof (induction arrivals arbitrary: s A)
  case (Cons f arrivals)
  let ?s = "fst (ingest_inbound s f)"
  have f: "f \<in> set fs" using Cons.prems by simp
  note step = rx_rep_ingest [OF assms(1) Cons.prems(1,2) f]
  have "in_order_prefix (insert f A) fs @ snd (ingest_all ?s arrivals) =
      in_order_prefix (insert f A \<union> set arrivals) fs"
    using Cons.IH [OF step(2,1)] Cons.prems(3) by simp
  with step(3) show ?case
    by (simp add: case_prod_beta Let_def ready_of_def)
qed simp

lemma rx_rep_new: "stream c fs \<Longrightarrow> rx_rep fs {} (session_new c)"
  by (cases fs) (simp_all add: rx_rep_def session_new_def in_order_prefix_def buf_rep_def)

lemma send_all_nth:
  "i < length ps \<Longrightarrow> snd (send_all s ps) ! i =
     \<lparr> f_header = \<lparr> h_connection_id = connection_id s, h_sequence = next_tx_sequence s + of_nat i,
                    h_flags = snd (ps ! i) \<rparr>, f_payload = fst (ps ! i) \<rparr>"
proof (induction s ps arbitrary: i rule: send_all.induct)
  case (2 s p fl ps)
  then show ?case
    by (cases i) (simp_all add: create_outbound_frame_def case_prod_beta Let_def)
qed simp

lemma length_send_all [simp]: "length (snd (send_all s ps)) = length ps"
  by (induction ps arbitrary: s) (auto simp: case_prod_beta Let_def)

lemma stream_send_all:
  "length ps < 2 ^ 64 \<Longrightarrow> stream c (snd (send_all (session_new c) ps))"
  by (simp add: stream_def send_all_nth session_new_def)

subsection \<open>Reachable session states\<close>

inductive session_reach :: "u32 \<Rightarrow> SessionState \<Rightarrow> bool" for c :: u32 where
  new: "session_reach c (session_new c)"
| outbound: "session_reach c s \<Longrightarrow> session_reach c (fst (create_outbound_frame s p fl))"
| inbound: "session_reach c s \<Longrightarrow> session_reach c (fst (ingest_inbound s f))"

lemma connection_id_ingest [simp]: "connection_id (fst (ingest_inbound s f)) = connection_id s"
  by (cases "h_connection_id (f_header f) \<noteq> connection_id s \<or> h_sequence (f_header f) < next_rx_sequence s")
    (simp_all add: ingest_inbound_reject ingest_inbound_accept Let_def)

lemma session_reach_inv: "session_reach c s \<Longrightarrow> session_inv s \<and> connection_id s = c"
proof (induction rule: session_reach.induct)
  case new
  then show ?case by (simp add: session_new_def session_inv_def)
next
  case (outbound s p fl)
  then show ?case
    by (simp add: session_inv_create_outbound) (simp add: create_outbound_frame_def)
next
  case (inbound s f)
  then show ?case by (simp add: session_inv_ingest_inbound)
qed

lemma drain_ready_consecutive:
  "(\<And>k f. map_of buf k = Some f \<Longrightarrow> h_sequence (f_header f) = k) \<Longrightarrow>
   map (\<lambda>f. h_sequence (f_header f)) (fst (drain_ready n buf)) =
     map (\<lambda>i. n + of_nat i) [0..<length (fst (drain_ready n buf))] \<and>
   fst (snd (drain_ready n buf)) = n + of_nat (length (fst (drain_ready n buf)))"
proof (induction n buf rule: drain_ready.induct)
  case (1 n buf)
  show ?case
  proof (cases "map_of buf n")
    case None
    then show ?thesis by (simp add: drain_ready_None)
  next
    case (Some g)
    let ?b = "bt_remove n buf"
    have "h_sequence (f_header f) = k" if "map_of ?b k = Some f" for k f
      by (rule 1(2)) (use that in \<open>auto split: if_splits\<close>)
    from 1(1) [OF Some this] 1(2) [OF Some] show ?thesis
      unfolding drain_ready_Some [OF Some]
      by (simp add: map_upt_Suc add.assoc del: upt_Suc)
  qed
qed

lemma ingest_Ok_consecutive:
  assumes "session_inv s" "snd (ingest_inbound s f) = Ok ready"
  shows "map (\<lambda>g. h_sequence (f_header g)) ready =
      map (\<lambda>i. next_rx_sequence s + of_nat i) [0..<length ready]"
    and "next_rx_sequence (fst (ingest_inbound s f)) = next_rx_sequence s + of_nat (length ready)"
proof -
  have acc: "h_connection_id (f_header f) = connection_id s" "\<not> h_sequence (f_header f) < next_rx_sequence s"
    using assms(2) ingest_inbound_reject(2) [of f s] by auto
  let ?b = "or_insert (h_sequence (f_header f)) f (reorder_buffer s)"
  have "h_sequence (f_header g) = k" if "map_of ?b k = Some g" for k g
    using that session_invD [OF assms(1), of k g] by (auto simp: map_of_or_insert split: if_splits)
  from drain_ready_consecutive [OF this, where n="next_rx_sequence s"] assms(2)
  show "map (\<lambda>g. h_sequence (f_header g)) ready =
      map (\<lambda>i. next_rx_sequence s + of_nat i) [0..<length ready]"
    and "next_rx_sequence (fst (ingest_inbound s f)) = next_rx_sequence s + of_nat (length ready)"
    by (auto simp: ingest_inbound_accept [OF acc] Let_def)
qed

subsection \<open>Properties\<close>

text \<open>
  C1.  Whatever the order, duplication or loss with which the frames of a sender's
  stream arrive, the receiver hands out exactly the longest prefix of the stream
  all of whose frames have arrived: in sending order, each frame once, and none
  before its predecessors.  In particular everything is delivered once every
  frame has arrived.
\<close>

theorem delivery_in_order:
  assumes "length ps < 2 ^ 64" "fs = snd (send_all (session_new c) ps)" "set arrivals \<subseteq> set fs"
  shows "snd (ingest_all (session_new c) arrivals) = takeWhile (\<lambda>f. f \<in> set arrivals) fs \<and>
    (set arrivals = set fs \<longrightarrow> snd (ingest_all (session_new c) arrivals) = fs)"
proof -
  have st: "stream c fs" using assms(1,2) by (simp add: stream_send_all)
  have "in_order_prefix {} fs @ snd (ingest_all (session_new c) arrivals) =
      in_order_prefix ({} \<union> set arrivals) fs"
    by (rule ingest_all_prefix [OF st _ rx_rep_new [OF st] assms(3)]) (simp add: session_new_def)
  moreover have "in_order_prefix {} fs = []" by (cases fs) (simp_all add: in_order_prefix_def)
  ultimately show ?thesis by (simp add: in_order_prefix_def)
qed

theorem delivery_in_order_witness:
  "let ps = [([1], 0), ([2], 0), ([3], 0)]; fs = snd (send_all (session_new 1) ps);
       arrivals = [fs ! 2, fs ! 0, fs ! 0, fs ! 1]
   in snd (ingest_all (session_new 1) arrivals) = fs \<and>
      snd (ingest_all (session_new 1) [fs ! 2, fs ! 0]) = [fs ! 0]"
proof -
  let ?ps = "[([1], 0), ([2], 0), ([3], 0)] :: (bytes \<times> u32) list"
  let ?fs = "snd (send_all (session_new 1) ?ps)"
  have len: "length ?ps < 2 ^ 64" by simp
  have all: "set [?fs ! 2, ?fs ! 0, ?fs ! 0, ?fs ! 1] = set ?fs"
    and some: "set [?fs ! 2, ?fs ! 0] \<subseteq> set ?fs"
    and pre: "takeWhile (\<lambda>f. f \<in> set [?fs ! 2, ?fs ! 0]) ?fs = [?fs ! 0]"
    by code_simp+
  have "snd (ingest_all (session_new 1) [?fs ! 2, ?fs ! 0, ?fs ! 0, ?fs ! 1]) = ?fs"
    using delivery_in_order [OF len refl equalityD1 [OF all]] all by blast
  moreover have "snd (ingest_all (session_new 1) [?fs ! 2, ?fs ! 0]) = [?fs ! 0]"
    using delivery_in_order [OF len refl some] pre by metis
  ultimately show ?thesis unfolding Let_def by blast
qed

text \<open>
  C2.  The wire codec is a bijection between frames and the byte strings of at least
  sixteen bytes: a buffer decodes to a frame exactly when it is that frame's
  encoding, and the only failure is a buffer shorter than the header.
\<close>

theorem frame_codec:
  "(decode raw = Ok f \<longleftrightarrow> raw = encode f) \<and>
   (decode raw = Err e \<longleftrightarrow> length raw < 16 \<and> e = BufferTooSmall (length raw) 16)"
  using decode_Ok_iff [of raw f] by (auto simp: decode_def HEADER_LEN_def Let_def)

text \<open>
  C3.  In every reachable session state the reorder buffer only holds frames of this
  session above the next expected sequence, under their own sequence.  A frame
  that is accepted hands out frames with consecutive sequences starting at the
  expected one and advances the expectation by their number (modulo \<open>2^64\<close>); a
  rejected frame leaves the state as it was.
\<close>

theorem session_state_invariant:
  assumes "session_reach c s"
  shows "session_inv s \<and> connection_id s = c \<and>
    (case ingest_inbound s f of
       (s', Inr ready) \<Rightarrow>
         map (\<lambda>g. h_sequence (f_header g)) ready =
           map (\<lambda>i. next_rx_sequence s + of_nat i) [0..<length ready] \<and>
         next_rx_sequence s' = next_rx_sequence s + of_nat (length ready)
     | (s', Inl e) \<Rightarrow> s' = s)"
proof -
  have inv: "session_inv s" "connection_id s = c" using session_reach_inv [OF assms] by auto
  then show ?thesis
    using ingest_Ok_consecutive [OF inv(1), of f] ingest_inbound_Err_unchanged [of s f]
    by (auto split: prod.split sum.split)
qed

theorem session_state_invariant_witness:
  "next_rx_sequence (fst (ingest_inbound (session_new 7)
     (snd (create_outbound_frame (session_new 7) [1, 2] FLAG_PING)))) = 1 \<and> session_inv (session_new 7)"
proof -
  let ?f = "snd (create_outbound_frame (session_new 7) [1, 2] FLAG_PING)"
  have "snd (ingest_inbound (session_new 7) ?f) = Ok [?f]" by code_simp
  with session_state_invariant [OF session_reach.new [of 7], of ?f] show ?thesis
    by (auto simp: session_new_def split: prod.splits)
qed

end
