(* ===== verification/Transport.thy ===== *)
theory Transport
  imports Session
begin

text \<open>
  The stream transports of \<^verbatim>\<open>bonded-core/src/transport.rs\<close>: the length-prefixed framing
  shared by the TCP and QUIC transports, the WebSocket message loop, the text
  lines of the handshakes, and \<^verbatim>\<open>PrependedStream\<close>.

  A socket is a script of what successive reads find: bytes in the receive
  buffer, the end of the stream, or an I/O error.  A read takes at most its
  buffer's capacity and leaves the remainder for the next read.  When the script
  is exhausted a read is pending, which is where \<^verbatim>\<open>tokio::select!\<close> may drop the
  future, so a pending operation returns the state it leaves behind.
\<close>

subsection \<open>Sockets\<close>

datatype read_event = ReadData bytes | ReadFinished | ReadErr

datatype 'a poll = Pending | Ready 'a

datatype TransportError =
  IoError
| ClosedReadingPrefix
| ClosedReadingPayload
| InvalidLengthPrefix nat
| FrameTooLarge nat
| BadFrame FrameError
| WsUnexpectedBinary
| WsClosed
| WsError
| TextClosed
| TextNotUtf8

definition MIN_SESSION_FRAME_LEN :: nat where "MIN_SESSION_FRAME_LEN = 16"

datatype TransportKind = NaiveTcp | WebSocketTls | Quic | WireGuard

fun stream_read :: "nat \<Rightarrow> read_event list \<Rightarrow> ((TransportError, bytes) res poll) \<times> read_event list" where
  "stream_read cap [] = (Pending, [])"
| "stream_read cap (ReadData d # evs) =
     (if length d \<le> cap then (Ready (Ok d), evs)
      else (Ready (Ok (take cap d)), ReadData (drop cap d) # evs))"
| "stream_read cap (ReadFinished # evs) = (Ready (Ok []), evs)"
| "stream_read cap (ReadErr # evs) = (Ready (Err IoError), evs)"

fun event_size :: "read_event \<Rightarrow> nat" where
  "event_size (ReadData d) = Suc (length d)"
| "event_size ReadFinished = 1"
| "event_size ReadErr = 1"

lemma stream_read_decreases:
  "0 < cap \<Longrightarrow> (Ready r, evs') = stream_read cap evs \<Longrightarrow>
   sum_list (map event_size evs') < sum_list (map event_size evs)"
  by (cases "(cap, evs)" rule: stream_read.cases) (auto split: if_splits)

subsection \<open>Filling the read buffer\<close>

text \<open>
  The \<^verbatim>\<open>while self.read_buf.len() < need\<close> loops of both \<^verbatim>\<open>recv\<close> methods; \<open>closed\<close> is
  the error of a read that returns no bytes.
\<close>

function fill_buf ::
  "TransportError \<Rightarrow> nat \<Rightarrow> read_event list \<Rightarrow> bytes \<Rightarrow> (TransportError, unit) res poll \<times> read_event list \<times> bytes" where
  "fill_buf closed need evs buf =
     (if need \<le> length buf then (Ready (Ok ()), evs, buf)
      else case stream_read 4096 evs of
             (Pending, evs') \<Rightarrow> (Pending, evs', buf)
           | (Ready (Inl e), evs') \<Rightarrow> (Ready (Err e), evs', buf)
           | (Ready (Inr d), evs') \<Rightarrow>
               (if d = [] then (Ready (Err closed), evs', buf)
                else fill_buf closed need evs' (buf @ d)))"
  by pat_completeness auto
termination
  by (relation "measure (\<lambda>(_, _, evs, _). sum_list (map event_size evs))")
    (auto dest!: stream_read_decreases [rotated])

declare fill_buf.simps [simp del]

subsection \<open>Length-prefixed transports\<close>

record stream_transport =
  t_in :: "read_event list"
  t_out :: bytes
  read_buf :: bytes

type_synonym NaiveTcpTransport = stream_transport
type_synonym QuicTransport = stream_transport

definition tcp_from_stream :: "read_event list \<Rightarrow> NaiveTcpTransport" where
  "tcp_from_stream evs = \<lparr> t_in = evs, t_out = [], read_buf = [] \<rparr>"

definition tcp_send :: "NaiveTcpTransport \<Rightarrow> SessionFrame \<Rightarrow> NaiveTcpTransport \<times> (TransportError, unit) res" where
  "tcp_send t frame =
     (let encoded = encode frame in
      if length encoded < 2 ^ 32
      then (t\<lparr> t_out := t_out t @ put_u32 (of_nat (length encoded)) @ encoded \<rparr>, Ok ())
      else (t, Err (FrameTooLarge (length encoded))))"

definition tcp_recv :: "NaiveTcpTransport \<Rightarrow> NaiveTcpTransport \<times> (TransportError, SessionFrame) res poll" where
  "tcp_recv t =
     (case fill_buf ClosedReadingPrefix 4 (t_in t) (read_buf t) of
        (Pending, evs, buf) \<Rightarrow> (t\<lparr> t_in := evs, read_buf := buf \<rparr>, Pending)
      | (Ready (Inl e), evs, buf) \<Rightarrow> (t\<lparr> t_in := evs, read_buf := buf \<rparr>, Ready (Err e))
      | (Ready (Inr _), evs, buf) \<Rightarrow>
          (let len = unat (get_u32 buf) in
           if len < MIN_SESSION_FRAME_LEN
           then (t\<lparr> t_in := evs, read_buf := buf \<rparr>, Ready (Err (InvalidLengthPrefix len)))
           else case fill_buf ClosedReadingPayload (4 + len) evs buf of
                  (Pending, evs, buf) \<Rightarrow> (t\<lparr> t_in := evs, read_buf := buf \<rparr>, Pending)
                | (Ready (Inl e), evs, buf) \<Rightarrow> (t\<lparr> t_in := evs, read_buf := buf \<rparr>, Ready (Err e))
                | (Ready (Inr _), evs, buf) \<Rightarrow>
                    (let frame_bytes = take len (drop 4 buf)
                     in (t\<lparr> t_in := evs, read_buf := drop len (drop 4 buf) \<rparr>,
                         Ready (case decode frame_bytes of
                                  Inl e \<Rightarrow> Err (BadFrame e) | Inr f \<Rightarrow> Ok f)))))"

text \<open>The QUIC transport frames its stream in the same way.\<close>

definition quic_send :: "QuicTransport \<Rightarrow> SessionFrame \<Rightarrow> QuicTransport \<times> (TransportError, unit) res" where
  "quic_send t frame =
     (let encoded = encode frame in
      if length encoded < 2 ^ 32
      then (t\<lparr> t_out := t_out t @ put_u32 (of_nat (length encoded)) @ encoded \<rparr>, Ok ())
      else (t, Err (FrameTooLarge (length encoded))))"

definition quic_recv :: "QuicTransport \<Rightarrow> QuicTransport \<times> (TransportError, SessionFrame) res poll" where
  "quic_recv t =
     (case fill_buf ClosedReadingPrefix 4 (t_in t) (read_buf t) of
        (Pending, evs, buf) \<Rightarrow> (t\<lparr> t_in := evs, read_buf := buf \<rparr>, Pending)
      | (Ready (Inl e), evs, buf) \<Rightarrow> (t\<lparr> t_in := evs, read_buf := buf \<rparr>, Ready (Err e))
      | (Ready (Inr _), evs, buf) \<Rightarrow>
          (let len = unat (get_u32 buf) in
           if len < MIN_SESSION_FRAME_LEN
           then (t\<lparr> t_in := evs, read_buf := buf \<rparr>, Ready (Err (InvalidLengthPrefix len)))
           else case fill_buf ClosedReadingPayload (4 + len) evs buf of
                  (Pending, evs, buf) \<Rightarrow> (t\<lparr> t_in := evs, read_buf := buf \<rparr>, Pending)
                | (Ready (Inl e), evs, buf) \<Rightarrow> (t\<lparr> t_in := evs, read_buf := buf \<rparr>, Ready (Err e))
                | (Ready (Inr _), evs, buf) \<Rightarrow>
                    (let frame_bytes = take len (drop 4 buf)
                     in (t\<lparr> t_in := evs, read_buf := drop len (drop 4 buf) \<rparr>,
                         Ready (case decode frame_bytes of
                                  Inl e \<Rightarrow> Err (BadFrame e) | Inr f \<Rightarrow> Ok f)))))"

subsection \<open>Text lines on a QUIC stream\<close>

definition newline :: byte where "newline = 10"

definition quic_send_text :: "QuicTransport \<Rightarrow> bytes \<Rightarrow> QuicTransport" where
  "quic_send_text t text = t\<lparr> t_out := t_out t @ text @ [newline] \<rparr>"

text \<open>
  \<^verbatim>\<open>recv_text\<close> wraps the receive half in a new \<^verbatim>\<open>BufReader\<close> (default capacity 8192) for
  one \<^verbatim>\<open>read_line\<close>; what the reader holds beyond the line is dropped with it.
\<close>

function read_line_buf :: "read_event list \<Rightarrow> bytes \<Rightarrow> (TransportError, bytes) res poll \<times> read_event list" where
  "read_line_buf evs line =
     (case stream_read 8192 evs of
        (Pending, evs') \<Rightarrow> (Pending, evs')
      | (Ready (Inl e), evs') \<Rightarrow> (Ready (Err e), evs')
      | (Ready (Inr d), evs') \<Rightarrow>
          (if d = [] then (Ready (Ok line), evs')
           else if newline \<in> set d
           then (Ready (Ok (line @ takeWhile (\<lambda>b. b \<noteq> newline) d @ [newline])), evs')
           else read_line_buf evs' (line @ d)))"
  by pat_completeness auto
termination
  by (relation "measure (\<lambda>(evs, _). sum_list (map event_size evs))")
    (auto dest!: stream_read_decreases [rotated])

declare read_line_buf.simps [simp del]

definition quic_recv_text ::
  "(bytes \<Rightarrow> bool) \<Rightarrow> QuicTransport \<Rightarrow> QuicTransport \<times> (TransportError, bytes) res poll" where
  "quic_recv_text valid_utf8 t =
     (case read_line_buf (t_in t) [] of
        (Pending, evs) \<Rightarrow> (t\<lparr> t_in := evs \<rparr>, Pending)
      | (Ready (Inl e), evs) \<Rightarrow> (t\<lparr> t_in := evs \<rparr>, Ready (Err e))
      | (Ready (Inr line), evs) \<Rightarrow>
          (t\<lparr> t_in := evs \<rparr>,
           Ready (if \<not> valid_utf8 line then Err TextNotUtf8
                  else if line = [] then Err TextClosed else Ok line)))"

subsection \<open>WebSocket messages\<close>

datatype ws_message = WsText bytes | WsBinary bytes | WsPing bytes | WsPong bytes | WsClose

datatype ws_event = WsMsg ws_message | WsFail | WsEnd

record WebSocketTlsTransport =
  ws_in :: "ws_event list"
  ws_out :: "ws_message list"

definition ws_send :: "WebSocketTlsTransport \<Rightarrow> SessionFrame \<Rightarrow> WebSocketTlsTransport" where
  "ws_send t frame = t\<lparr> ws_out := ws_out t @ [WsBinary (encode frame)] \<rparr>"

definition ws_send_text :: "WebSocketTlsTransport \<Rightarrow> bytes \<Rightarrow> WebSocketTlsTransport" where
  "ws_send_text t text = t\<lparr> ws_out := ws_out t @ [WsText text] \<rparr>"

fun ws_next_frame :: "ws_event list \<Rightarrow> ws_event list \<times> (TransportError, SessionFrame) res poll" where
  "ws_next_frame [] = ([], Pending)"
| "ws_next_frame (WsMsg (WsBinary raw) # evs) =
     (evs, Ready (case decode raw of Inl e \<Rightarrow> Err (BadFrame e) | Inr f \<Rightarrow> Ok f))"
| "ws_next_frame (WsMsg WsClose # evs) = (evs, Ready (Err WsClosed))"
| "ws_next_frame (WsFail # evs) = (evs, Ready (Err WsError))"
| "ws_next_frame (WsEnd # evs) = (evs, Ready (Err WsClosed))"
| "ws_next_frame (_ # evs) = ws_next_frame evs"

definition ws_recv ::
  "WebSocketTlsTransport \<Rightarrow> WebSocketTlsTransport \<times> (TransportError, SessionFrame) res poll" where
  "ws_recv t = (let (evs, r) = ws_next_frame (ws_in t) in (t\<lparr> ws_in := evs \<rparr>, r))"

fun ws_next_text :: "ws_event list \<Rightarrow> ws_event list \<times> (TransportError, bytes) res poll" where
  "ws_next_text [] = ([], Pending)"
| "ws_next_text (WsMsg (WsText text) # evs) = (evs, Ready (Ok text))"
| "ws_next_text (WsMsg (WsBinary _) # evs) = (evs, Ready (Err WsUnexpectedBinary))"
| "ws_next_text (WsMsg WsClose # evs) = (evs, Ready (Err WsClosed))"
| "ws_next_text (WsFail # evs) = (evs, Ready (Err WsError))"
| "ws_next_text (WsEnd # evs) = (evs, Ready (Err WsClosed))"
| "ws_next_text (_ # evs) = ws_next_text evs"

definition ws_recv_text ::
  "WebSocketTlsTransport \<Rightarrow> WebSocketTlsTransport \<times> (TransportError, bytes) res poll" where
  "ws_recv_text t = (let (evs, r) = ws_next_text (ws_in t) in (t\<lparr> ws_in := evs \<rparr>, r))"

subsection \<open>Replayed request headers\<close>

record PrependedStream =
  prefix :: bytes
  pos :: nat
  inner :: "read_event list"

definition prepended_new :: "bytes \<Rightarrow> read_event list \<Rightarrow> PrependedStream" where
  "prepended_new p i = \<lparr> prefix = p, pos = 0, inner = i \<rparr>"

definition poll_read ::
  "nat \<Rightarrow> PrependedStream \<Rightarrow> (TransportError, bytes) res poll \<times> PrependedStream" where
  "poll_read remaining s =
     (if pos s < length (prefix s) then
        let rest = drop (pos s) (prefix s); to_copy = min (length rest) remaining
        in (Ready (Ok (take to_copy rest)), s\<lparr> pos := pos s + to_copy \<rparr>)
      else let (r, evs) = stream_read remaining (inner s) in (r, s\<lparr> inner := evs \<rparr>))"

subsection \<open>What a transport has been sent\<close>

fun event_data :: "read_event \<Rightarrow> bytes" where
  "event_data (ReadData d) = d"
| "event_data ReadFinished = []"
| "event_data ReadErr = []"

definition socket_data :: "read_event list \<Rightarrow> bytes" where
  "socket_data evs = concat (map event_data evs)"

text \<open>A socket on which nothing but data has happened so far.\<close>

definition only_data :: "read_event list \<Rightarrow> bool" where
  "only_data evs = list_all (\<lambda>e. case e of ReadData d \<Rightarrow> d \<noteq> [] | _ \<Rightarrow> False) evs"

definition undelivered :: "stream_transport \<Rightarrow> bytes" where
  "undelivered t = read_buf t @ socket_data (t_in t)"

definition transport_open :: "stream_transport \<Rightarrow> bool" where
  "transport_open t = only_data (t_in t)"

lemma socket_data_simps [simp]:
  "socket_data [] = []" "socket_data (e # evs) = event_data e @ socket_data evs"
  by (simp_all add: socket_data_def)

lemma only_data_simps [simp]:
  "only_data []" "only_data (ReadData d # evs) \<longleftrightarrow> d \<noteq> [] \<and> only_data evs"
  "\<not> only_data (ReadFinished # evs)" "\<not> only_data (ReadErr # evs)"
  by (simp_all add: only_data_def)

lemma stream_read_only_data:
  assumes "only_data evs" "0 < cap"
  shows "case stream_read cap evs of
      (Pending, evs') \<Rightarrow> evs = [] \<and> evs' = []
    | (Ready (Inl e), evs') \<Rightarrow> False
    | (Ready (Inr d), evs') \<Rightarrow> d \<noteq> [] \<and> only_data evs' \<and> socket_data evs = d @ socket_data evs'"
  using assms by (cases "(cap, evs)" rule: stream_read.cases) auto

lemma fill_buf_only_data:
  "only_data evs \<Longrightarrow>
   (case fill_buf closed need evs buf of (r, evs', buf') \<Rightarrow>
      only_data evs' \<and> buf' @ socket_data evs' = buf @ socket_data evs \<and>
      (if need \<le> length (buf @ socket_data evs) then r = Ready (Ok ()) \<and> need \<le> length buf'
       else r = Pending \<and> evs' = []))"
proof (induction closed need evs buf rule: fill_buf.induct)
  case (1 closed need evs buf)
  show ?case
  proof (cases "need \<le> length buf")
    case True
    with 1(2) show ?thesis by (subst fill_buf.simps) simp
  next
    case False
    obtain r evs' where r: "stream_read 4096 evs = (r, evs')" by fastforce
    note sr = stream_read_only_data [OF 1(2), of 4096, unfolded r]
    show ?thesis
    proof (cases r)
      case Pending
      with sr False r show ?thesis by (subst fill_buf.simps) simp
    next
      case (Ready x)
      then obtain d where x: "x = Inr d" using sr by (cases x) auto
      have "case fill_buf closed need evs' (buf @ d) of (r, evs'', buf') \<Rightarrow>
          only_data evs'' \<and> buf' @ socket_data evs'' = (buf @ d) @ socket_data evs' \<and>
          (if need \<le> length ((buf @ d) @ socket_data evs') then r = Ready (Ok ()) \<and> need \<le> length buf'
           else r = Pending \<and> evs'' = [])"
        using 1(1) [OF False r [symmetric] Ready x] sr Ready x by auto
      with sr False r Ready x show ?thesis by (subst fill_buf.simps) simp
    qed
  qed
qed

subsection \<open>The framing contract\<close>

text \<open>
  What the session layer relies on: a transport on which the peer's encoding of
  a frame is waiting returns that frame and consumes exactly its encoding, and a
  transport that holds only part of an encoding waits without losing any of it.
\<close>

locale framed_transport =
  fixes recv :: "'t \<Rightarrow> 't \<times> (TransportError, SessionFrame) res poll"
    and wire :: "SessionFrame \<Rightarrow> bytes"
    and sendable :: "SessionFrame \<Rightarrow> bool"
    and waiting :: "'t \<Rightarrow> bytes"
    and is_open :: "'t \<Rightarrow> bool"
  assumes recv_complete: "is_open t \<Longrightarrow> sendable f \<Longrightarrow> waiting t = wire f @ rest \<Longrightarrow>
      \<exists>t'. recv t = (t', Ready (Ok f)) \<and> is_open t' \<and> waiting t' = rest"
    and recv_partial: "is_open t \<Longrightarrow> sendable f \<Longrightarrow> waiting t @ missing = wire f \<Longrightarrow> missing \<noteq> [] \<Longrightarrow>
      \<exists>t'. recv t = (t', Pending) \<and> is_open t' \<and> waiting t' = waiting t"
begin

lemma recv_stream:
  assumes "is_open t" "list_all sendable fs" "waiting t = concat (map wire fs) @ rest"
  shows "\<exists>t'. repeat_op (length fs) recv t = (t', map (\<lambda>f. Ready (Ok f)) fs) \<and> is_open t' \<and> waiting t' = rest"
  using assms
proof (induction fs arbitrary: t)
  case (Cons f fs)
  then have "waiting t = wire f @ (concat (map wire fs) @ rest)" by simp
  then obtain t1 where "recv t = (t1, Ready (Ok f))" "is_open t1" "waiting t1 = concat (map wire fs) @ rest"
    using recv_complete [OF Cons.prems(1), of f] Cons.prems(2) by auto
  with Cons.IH [of t1] Cons.prems(2) show ?case by auto
qed simp

end

definition stream_wire :: "SessionFrame \<Rightarrow> bytes" where
  "stream_wire f = put_u32 (of_nat (length (encode f))) @ encode f"

definition fits_prefix :: "SessionFrame \<Rightarrow> bool" where
  "fits_prefix f \<longleftrightarrow> length (encode f) < 2 ^ 32"

lemma tcp_send_wire: "fits_prefix f \<Longrightarrow> tcp_send t f = (t\<lparr> t_out := t_out t @ stream_wire f \<rparr>, Ok ())"
  by (simp add: tcp_send_def stream_wire_def fits_prefix_def Let_def)

lemma quic_recv_eq: "quic_recv = tcp_recv"
  by (simp add: quic_recv_def tcp_recv_def fun_eq_iff)

lemma fits_prefix_len:
  "fits_prefix f \<Longrightarrow> unat (get_u32 (stream_wire f @ rest)) = 16 + length (f_payload f)"
  using unat_of_nat_small [where 'a=32, of "length (encode f)"]
  unfolding stream_wire_def append_assoc get_put_u32 by (simp add: fits_prefix_def HEADER_LEN_def)

lemma length_stream_wire [simp]: "length (stream_wire f) = 20 + length (f_payload f)"
  by (simp add: stream_wire_def HEADER_LEN_def)

lemma get_u32_prefix: "4 \<le> length xs \<Longrightarrow> get_u32 (xs @ ys) = get_u32 xs"
  by (simp add: get_u32_def)

lemma get_u32_take4: "4 \<le> length xs \<Longrightarrow> xs @ ys = zs @ us \<Longrightarrow> 4 \<le> length zs \<Longrightarrow> get_u32 xs = get_u32 zs"
  by (metis get_u32_prefix)

lemma fill_buf_enough:
  assumes "only_data evs" "need \<le> length (buf @ socket_data evs)"
  obtains evs' buf' where "fill_buf closed need evs buf = (Ready (Ok ()), evs', buf')" "only_data evs'"
    "buf' @ socket_data evs' = buf @ socket_data evs" "need \<le> length buf'"
  using fill_buf_only_data [OF assms(1), where closed=closed and need=need and buf=buf] assms(2) by (auto split: prod.splits if_splits)

lemma fill_buf_short:
  assumes "only_data evs" "length (buf @ socket_data evs) < need"
  shows "fill_buf closed need evs buf = (Pending, [], buf @ socket_data evs)"
  using fill_buf_only_data [OF assms(1), where closed=closed and need=need and buf=buf] assms(2)
  by (auto split: prod.splits if_splits)

lemma stream_wire_take:
  assumes "buf @ more_data = stream_wire f @ rest" "length (stream_wire f) \<le> length buf"
  shows "take (16 + length (f_payload f)) (drop 4 buf) = encode f"
    and "drop (16 + length (f_payload f)) (drop 4 buf) @ more_data = rest"
proof -
  let ?n = "length (f_payload f)"
  from assms have buf: "buf = stream_wire f @ drop (length (stream_wire f)) buf"
    and rest: "drop (length (stream_wire f)) buf @ more_data = rest"
    by (metis append_eq_append_conv_if append_take_drop_id)+
  have d4: "drop 4 buf = encode f @ drop (length (stream_wire f)) buf"
    by (subst buf) (simp add: stream_wire_def)
  show "take (16 + ?n) (drop 4 buf) = encode f"
    unfolding d4 by (simp add: HEADER_LEN_def)
  show "drop (16 + ?n) (drop 4 buf) @ more_data = rest"
    unfolding d4 using rest by (simp add: HEADER_LEN_def)
qed

lemma tcp_recv_complete:
  assumes "transport_open t" "fits_prefix f" "undelivered t = stream_wire f @ rest"
  shows "\<exists>t'. tcp_recv t = (t', Ready (Ok f)) \<and> transport_open t' \<and> undelivered t' = rest"
proof -
  have od: "only_data (t_in t)" and inp: "read_buf t @ socket_data (t_in t) = stream_wire f @ rest"
    using assms(1,3) by (simp_all add: transport_open_def undelivered_def)
  let ?n = "length (f_payload f)"
  have "4 \<le> length (read_buf t @ socket_data (t_in t))" unfolding inp by simp
  then obtain evs1 buf1 where one: "fill_buf ClosedReadingPrefix 4 (t_in t) (read_buf t) = (Ready (Ok ()), evs1, buf1)"
    "only_data evs1" "buf1 @ socket_data evs1 = stream_wire f @ rest" "4 \<le> length buf1"
    using fill_buf_enough [OF od] inp by metis
  have len: "unat (get_u32 buf1) = 16 + ?n"
    using get_u32_take4 [OF one(4,3)] fits_prefix_len [OF assms(2), of "[]"] by simp
  have "4 + (16 + ?n) \<le> length (buf1 @ socket_data evs1)" unfolding one(3) by simp
  then obtain evs2 buf2 where two: "fill_buf ClosedReadingPayload (4 + (16 + ?n)) evs1 buf1 = (Ready (Ok ()), evs2, buf2)"
    "only_data evs2" "buf2 @ socket_data evs2 = stream_wire f @ rest" "4 + (16 + ?n) \<le> length buf2"
    using fill_buf_enough [OF one(2)] one(3) by metis
  have "length (stream_wire f) \<le> length buf2" using two(4) by simp
  from stream_wire_take [OF two(3) this] one(1) len two(1,2) show ?thesis
    by (simp add: tcp_recv_def Let_def MIN_SESSION_FRAME_LEN_def transport_open_def undelivered_def)
qed

lemma tcp_recv_partial:
  assumes "transport_open t" "fits_prefix f" "undelivered t @ missing = stream_wire f" "missing \<noteq> []"
  shows "\<exists>t'. tcp_recv t = (t', Pending) \<and> transport_open t' \<and> undelivered t' = undelivered t"
proof -
  have od: "only_data (t_in t)" using assms(1) by (simp add: transport_open_def)
  let ?all = "read_buf t @ socket_data (t_in t)" and ?n = "length (f_payload f)"
  have inp: "?all @ missing = stream_wire f" using assms(3) by (simp add: undelivered_def)
  have short: "length ?all < 4 + (16 + ?n)"
    using arg_cong [OF inp, of length] assms(4) by (simp add: length_greater_0_conv [symmetric] del: length_greater_0_conv)
  show ?thesis
  proof (cases "length ?all < 4")
    case True
    then show ?thesis
      using fill_buf_short [OF od] by (simp add: tcp_recv_def transport_open_def undelivered_def)
  next
    case False
    then obtain evs1 buf1 where one: "fill_buf ClosedReadingPrefix 4 (t_in t) (read_buf t) = (Ready (Ok ()), evs1, buf1)"
      "only_data evs1" "buf1 @ socket_data evs1 = ?all" "4 \<le> length buf1"
      using fill_buf_enough [OF od] by (metis not_less)
    have "buf1 @ (socket_data evs1 @ missing) = stream_wire f @ []" using one(3) inp by (metis append.assoc append_Nil2)
    from get_u32_take4 [OF one(4) this] have len: "unat (get_u32 buf1) = 16 + ?n"
      using fits_prefix_len [OF assms(2), of "[]"] by simp
    have "fill_buf ClosedReadingPayload (4 + (16 + ?n)) evs1 buf1 = (Pending, [], ?all)"
      using fill_buf_short [OF one(2), of buf1] short one(3) by metis
    with one(1) len show ?thesis
      by (simp add: tcp_recv_def Let_def MIN_SESSION_FRAME_LEN_def transport_open_def undelivered_def)
  qed
qed

interpretation tcp: framed_transport tcp_recv stream_wire fits_prefix undelivered transport_open
  using tcp_recv_complete tcp_recv_partial by unfold_locales

interpretation quic: framed_transport quic_recv stream_wire fits_prefix undelivered transport_open
  using tcp_recv_complete tcp_recv_partial unfolding quic_recv_eq by unfold_locales

subsection \<open>Sending a list of frames\<close>

fun tcp_send_all :: "NaiveTcpTransport \<Rightarrow> SessionFrame list \<Rightarrow> NaiveTcpTransport" where
  "tcp_send_all t [] = t"
| "tcp_send_all t (f # fs) = tcp_send_all (fst (tcp_send t f)) fs"

lemma tcp_send_all_out:
  "list_all fits_prefix fs \<Longrightarrow> t_out (tcp_send_all t fs) = t_out t @ concat (map stream_wire fs)"
  by (induction fs arbitrary: t) (simp_all add: tcp_send_wire)

lemma only_data_append [simp]: "only_data (a @ b) \<longleftrightarrow> only_data a \<and> only_data b"
  by (simp add: only_data_def)

lemma socket_data_append [simp]: "socket_data (a @ b) = socket_data a @ socket_data b"
  by (simp add: socket_data_def)

text \<open>More bytes reach the socket while no receive is running.\<close>

definition arrive :: "read_event list \<Rightarrow> stream_transport \<Rightarrow> stream_transport" where
  "arrive evs t = t\<lparr> t_in := t_in t @ evs \<rparr>"

definition prepended_remaining :: "PrependedStream \<Rightarrow> bytes" where
  "prepended_remaining s = drop (pos s) (prefix s) @ socket_data (inner s)"

lemma stream_read_data:
  "stream_read cap evs = (Ready (Ok d), evs') \<Longrightarrow> socket_data evs = d @ socket_data evs'"
  by (cases "(cap, evs)" rule: stream_read.cases) (auto split: if_splits)

subsection \<open>Properties\<close>

text \<open>
  C5.  Framing does not depend on how the network cuts the stream: whatever chunks
  the bytes written by the sender arrive in, the receiver gets back exactly the
  frames that were sent, in order, and keeps nothing.
\<close>

theorem framing_any_chunking:
  assumes "list_all fits_prefix fs" "only_data evs"
    and "socket_data evs = t_out (tcp_send_all (tcp_from_stream []) fs)"
  shows "\<exists>t. repeat_op (length fs) tcp_recv (tcp_from_stream evs) = (t, map (\<lambda>f. Ready (Ok f)) fs) \<and>
    undelivered t = []"
proof -
  have "undelivered (tcp_from_stream evs) = concat (map stream_wire fs) @ []"
    using assms by (simp add: undelivered_def tcp_send_all_out) (simp add: tcp_from_stream_def)
  moreover have "transport_open (tcp_from_stream evs)"
    using assms(2) by (simp add: transport_open_def tcp_from_stream_def)
  ultimately show ?thesis using tcp.recv_stream [OF _ assms(1)] by blast
qed

theorem framing_any_chunking_witness:
  "let f = snd (create_outbound_frame (session_new 1) [9, 8] 0);
       bs = t_out (tcp_send_all (tcp_from_stream []) [f, f])
   in \<exists>t. repeat_op 2 tcp_recv (tcp_from_stream [ReadData (take 3 bs), ReadData (drop 3 bs)]) =
        (t, [Ready (Ok f), Ready (Ok f)])"
proof -
  let ?f = "snd (create_outbound_frame (session_new 1) [9, 8] 0)"
  let ?bs = "t_out (tcp_send_all (tcp_from_stream []) [?f, ?f])"
  have fits: "list_all fits_prefix [?f, ?f]"
    by (simp add: fits_prefix_def create_outbound_frame_def HEADER_LEN_def)
  then have "length ?bs = 44"
    by (simp add: tcp_send_all_out tcp_from_stream_def create_outbound_frame_def del: tcp_send_all.simps)
  then have "only_data [ReadData (take 3 ?bs), ReadData (drop 3 ?bs)]" by auto
  from framing_any_chunking [OF fits this] show ?thesis
    unfolding Let_def by (auto simp: numeral_2_eq_2 simp del: repeat_op.simps)
qed

text \<open>
  C6.  Receiving is cancel-safe: a receive that is dropped while it waits for the rest
  of a frame loses nothing, so once the missing bytes arrive the next receive
  returns the whole frame and leaves exactly what follows it.
\<close>

theorem recv_cancel_safe:
  assumes "transport_open t" "fits_prefix f" "undelivered t @ missing = stream_wire f" "missing \<noteq> []"
    and "only_data evs" "socket_data evs = missing @ rest"
  shows "\<exists>t'. tcp_recv t = (t', Pending) \<and>
    (\<exists>t''. tcp_recv (arrive evs t') = (t'', Ready (Ok f)) \<and> undelivered t'' = rest)"
proof -
  from tcp.recv_partial [OF assms(1-4)] obtain t' where
    t': "tcp_recv t = (t', Pending)" "transport_open t'" "undelivered t' = undelivered t" by blast
  have "transport_open (arrive evs t')" "undelivered (arrive evs t') = stream_wire f @ rest"
    using t'(2,3) assms(3,5,6)
    by (simp_all add: transport_open_def undelivered_def arrive_def flip: assms(3))
  from tcp.recv_complete [OF this(1) assms(2) this(2)] t'(1) show ?thesis by blast
qed

theorem recv_cancel_safe_witness:
  "let f = snd (create_outbound_frame (session_new 1) [7] 0); w = stream_wire f in
   \<exists>t'. tcp_recv (tcp_from_stream [ReadData (take 6 w)]) = (t', Pending) \<and>
    (\<exists>t''. tcp_recv (arrive [ReadData (drop 6 w)] t') = (t'', Ready (Ok f)) \<and> undelivered t'' = [])"
proof -
  let ?f = "snd (create_outbound_frame (session_new 1) [7] 0)"
  let ?w = "stream_wire ?f" and ?t = "tcp_from_stream [ReadData (take 6 (stream_wire ?f))]"
  have len: "length ?w = 21" by (simp add: create_outbound_frame_def)
  then have "length (take 6 ?w) = 6" "length (drop 6 ?w) = 15" by simp_all
  then have "take 6 ?w \<noteq> []" "drop 6 ?w \<noteq> []" by (metis list.size(3) zero_neq_numeral)+
  moreover have "fits_prefix ?f" by (simp add: fits_prefix_def create_outbound_frame_def HEADER_LEN_def)
  ultimately show ?thesis
    using recv_cancel_safe [of ?t ?f "drop 6 ?w" "[ReadData (drop 6 ?w)]" "[]"]
    unfolding Let_def by (simp add: transport_open_def undelivered_def tcp_from_stream_def)
qed

text \<open>
  C7.  A replayed request is seen exactly once and before anything else: every read of
  a \<^verbatim>\<open>PrependedStream\<close> returns the next bytes of the recorded headers followed by the
  bytes of the underlying stream, and no read reports the end of the stream
  while recorded bytes remain.
\<close>

theorem prepended_replay:
  assumes "poll_read cap s = (Ready (Ok d), s')"
  shows "prepended_remaining s = d @ prepended_remaining s' \<and>
    (d = [] \<and> 0 < cap \<longrightarrow> length (prefix s) \<le> pos s)"
proof (cases "pos s < length (prefix s)")
  case True
  let ?rest = "drop (pos s) (prefix s)"
  let ?n = "min (length ?rest) cap"
  have "d = take ?n ?rest" "s' = s\<lparr> pos := pos s + ?n \<rparr>" using assms True by (auto simp: poll_read_def Let_def)
  moreover have "?rest = take ?n ?rest @ drop (pos s + ?n) (prefix s)" by (simp only: drop_take_split)
  ultimately show ?thesis using True by (auto simp: prepended_remaining_def)
next
  case False
  with assms show ?thesis
    by (auto simp: poll_read_def prepended_remaining_def dest: stream_read_data split: prod.splits)
qed

theorem prepended_replay_witness:
  "poll_read 2 (prepended_new [1, 2, 3] [ReadData [4]]) =
     (Ready (Ok [1, 2]), (prepended_new [1, 2, 3] [ReadData [4]])\<lparr> pos := 2 \<rparr>) \<and>
   prepended_remaining (prepended_new [1, 2, 3] [ReadData [4]]) = [1, 2] @ [3, 4]"
proof -
  have "poll_read 2 (prepended_new [1, 2, 3] [ReadData [4]]) =
     (Ready (Ok [1, 2]), (prepended_new [1, 2, 3] [ReadData [4]])\<lparr> pos := 2 \<rparr>)"
    by (simp add: poll_read_def prepended_new_def Let_def)
  with prepended_replay [OF this] show ?thesis
    by (simp add: prepended_remaining_def prepended_new_def)
qed

text \<open>
  C8.  A text line read from a QUIC stream costs the bytes that arrived with it: when
  the peer's line and the bytes that follow it are found by one read, the line
  is returned and everything after it is discarded, so a frame sent right behind
  the handshake line never reaches \<^verbatim>\<open>recv\<close>.
\<close>

theorem quic_recv_text_discards:
  assumes "newline \<notin> set l" "t_in t = ReadData (l @ newline # rest) # evs"
    and "length (l @ newline # rest) \<le> 8192" "valid_utf8 (l @ [newline])"
  shows "quic_recv_text valid_utf8 t = (t\<lparr> t_in := evs \<rparr>, Ready (Ok (l @ [newline]))) \<and>
    undelivered (t\<lparr> t_in := evs \<rparr>) = read_buf t @ socket_data evs"
proof -
  have "takeWhile (\<lambda>b. b \<noteq> newline) (l @ newline # rest) = l"
    using assms(1) by (induction l) auto
  then have "read_line_buf (ReadData (l @ newline # rest) # evs) [] = (Ready (Ok (l @ [newline])), evs)"
    using assms(3) by (subst read_line_buf.simps) simp
  with assms(2,4) show ?thesis by (simp add: quic_recv_text_def undelivered_def)
qed

theorem quic_recv_text_discards_witness:
  "quic_recv_text (\<lambda>_. True) (tcp_from_stream [ReadData [79, 75, 10, 1, 2, 3]]) =
     (tcp_from_stream [], Ready (Ok [79, 75, 10])) \<and> undelivered (tcp_from_stream []) = []"
  using quic_recv_text_discards [of "[79, 75]" "tcp_from_stream [ReadData [79, 75, 10, 1, 2, 3]]"
      "[1, 2, 3]" "[]" "\<lambda>_. True"]
  by (simp add: newline_def tcp_from_stream_def undelivered_def)

end
