(* ===== verification/Packets.thy ===== *)
theory Packets
  imports Prelude
begin

text \<open>
  IPv4 packet handling: checksums, parsers, builders and address rewriting of
  \<^verbatim>\<open>bonded-server/src/smoltcp_forwarder.rs\<close>, the header check of
  \<^verbatim>\<open>tun_bridge.rs\<close>, and the IPv4 envelope of the WireGuard transports
  (\<^verbatim>\<open>bonded-core/src/transport.rs\<close>, \<^verbatim>\<open>bonded-server/src/wireguard.rs\<close>).
\<close>

subsection \<open>Addresses\<close>

datatype Ipv4Addr = Ipv4Addr byte byte byte byte

fun octets :: "Ipv4Addr \<Rightarrow> bytes" where
  "octets (Ipv4Addr a b c d) = [a, b, c, d]"

definition addr_at :: "nat \<Rightarrow> bytes \<Rightarrow> Ipv4Addr" where
  "addr_at i p = Ipv4Addr (p ! i) (p ! (i + 1)) (p ! (i + 2)) (p ! (i + 3))"

definition u16_at :: "nat \<Rightarrow> bytes \<Rightarrow> u16" where
  "u16_at i p = get_u16 [p ! i, p ! (i + 1)]"

subsection \<open>Checksums\<close>

fun sum_words :: "u32 \<Rightarrow> bytes \<Rightarrow> u32" where
  "sum_words s (a # b # rest) = sum_words (s + ucast (get_u16 [a, b])) rest"
| "sum_words s [a] = s + push_bit 8 (ucast a)"
| "sum_words s [] = s"

lemma unat_carry:
  "unat ((s AND 0xffff) + drop_bit 16 s) = unat s mod 65536 + unat s div 65536" for s :: u32
proof -
  have "unat s div 65536 < 65536" using unat_bound [of s] by simp
  moreover have "unat s mod 65536 < 65536" by simp
  ultimately have "unat s mod 65536 + unat s div 65536 < 2 ^ LENGTH(32)" by simp
  then show ?thesis by (simp only: unat_word_ariths unat_bits mod_less)
qed

lemma carry_decreases:
  "drop_bit 16 s \<noteq> 0 \<Longrightarrow> unat ((s AND 0xffff) + drop_bit 16 s) < unat s" for s :: u32
proof -
  assume "drop_bit 16 s \<noteq> 0"
  then have "0 < unat (drop_bit 16 s)" by (simp add: unat_gt_0)
  then have "0 < unat s div 65536" by (simp add: unat_drop_bit16)
  moreover have "unat s = unat s div 65536 * 65536 + unat s mod 65536" by simp
  ultimately show ?thesis unfolding unat_carry by linarith
qed

function fold_carry :: "u32 \<Rightarrow> u32" where
  "fold_carry s = (if drop_bit 16 s \<noteq> 0 then fold_carry ((s AND 0xffff) + drop_bit 16 s) else s)"
  by pat_completeness auto
termination
proof (relation "measure unat")
  fix s :: u32
  assume "drop_bit 16 s \<noteq> 0"
  then show "((s AND 0xffff) + drop_bit 16 s, s) \<in> measure unat"
    unfolding in_measure by (rule carry_decreases)
qed simp

declare fold_carry.simps [simp del]

definition ones_complement_sum :: "bytes \<Rightarrow> u16" where
  "ones_complement_sum bs = NOT (ucast (fold_carry (sum_words 0 bs)))"

definition ipv4_checksum :: "bytes \<Rightarrow> u16" where
  "ipv4_checksum header = ones_complement_sum header"

definition tcp_udp_checksum_ipv4 :: "Ipv4Addr \<Rightarrow> Ipv4Addr \<Rightarrow> byte \<Rightarrow> bytes \<Rightarrow> u16" where
  "tcp_udp_checksum_ipv4 src dst proto segment =
     (let len = length segment;
          pseudo = octets src @ octets dst @ [0, proto] @ put_u16 (of_nat len) @ segment
                   @ (if len mod 2 = 1 then [0] else []);
          ck = ones_complement_sum pseudo
      in if ck = 0 then 0xffff else ck)"

subsection \<open>Address rewriting\<close>

definition SMOLTCP_IP_ARRAY :: bytes where "SMOLTCP_IP_ARRAY = [10, 200, 0, 1]"

text \<open>The slice \<^verbatim>\<open>&pkt[..ihl]\<close> panics when the header length exceeds the packet.\<close>

definition rewrite_dst_ip_inbound :: "bytes \<Rightarrow> bytes option exec" where
  "rewrite_dst_ip_inbound packet =
     (if length packet < 20 \<or> drop_bit 4 (packet ! 0) \<noteq> 4 then Return None
      else
        let pkt = copy_at 16 SMOLTCP_IP_ARRAY packet;
            ihl = unat (pkt ! 0 AND 0x0f) * 4;
            pkt = copy_at 10 [0, 0] pkt
        in if length pkt < ihl then Panic
           else let cksum = ipv4_checksum (take ihl pkt)
                in Return (Some (copy_at 10 (put_u16 cksum) pkt)))"

definition rewrite_src_ip_outbound :: "bytes \<Rightarrow> Ipv4Addr \<Rightarrow> bytes exec" where
  "rewrite_src_ip_outbound pkt original_src =
     (if length pkt < 20 then Return pkt
      else
        let ihl = unat (pkt ! 0 AND 0x0f) * 4;
            pkt = copy_at 12 (octets original_src) pkt;
            pkt = copy_at 10 [0, 0] pkt
        in if length pkt < ihl then Panic
           else
             let cksum = ipv4_checksum (take ihl pkt);
                 pkt = copy_at 10 (put_u16 cksum) pkt;
                 protocol = pkt ! 9;
                 src_ip = addr_at 12 pkt;
                 dst_ip = addr_at 16 pkt;
                 total_len = unat (u16_at 2 pkt)
             in if length pkt < total_len \<or> total_len < ihl then Return pkt
                else
                  let transport = slice ihl total_len pkt;
                      patch = (\<lambda>i proto.
                        let transport = copy_at i [0, 0] transport;
                            cksum = tcp_udp_checksum_ipv4 src_ip dst_ip proto transport
                        in copy_at ihl (copy_at i (put_u16 cksum) transport) pkt)
                  in Return (if protocol = 6 \<and> 20 \<le> length transport then patch 16 6
                             else if protocol = 17 \<and> 8 \<le> length transport then patch 6 17
                             else pkt))"

subsection \<open>Parsers\<close>

definition parse_ipv4_tcp_tuple_flags :: "bytes \<Rightarrow> (Ipv4Addr \<times> u16 \<times> Ipv4Addr \<times> u16 \<times> byte) option" where
  "parse_ipv4_tcp_tuple_flags packet =
     (if length packet < 40 then None
      else
        let version = drop_bit 4 (packet ! 0); ihl = unat (packet ! 0 AND 0x0f)
        in if version \<noteq> 4 \<or> ihl < 5 \<or> packet ! 9 \<noteq> 6 then None
           else
             let ihl_bytes = ihl * 4
             in if length packet < ihl_bytes + 20 then None
                else
                  let tcp = drop ihl_bytes packet
                  in Some (addr_at 12 packet, u16_at 0 tcp, addr_at 16 packet, u16_at 2 tcp, tcp ! 13))"

definition parse_tcp_header :: "bytes \<Rightarrow> (Ipv4Addr \<times> u16 \<times> Ipv4Addr \<times> u16 \<times> bool) option" where
  "parse_tcp_header packet =
     (if length packet < 40 then None
      else
        let version = drop_bit 4 (packet ! 0); ihl = unat (packet ! 0 AND 0x0f)
        in if version \<noteq> 4 \<or> ihl < 5 \<or> packet ! 9 \<noteq> 6 then None
           else
             let ihl_bytes = ihl * 4
             in if length packet < ihl_bytes + 20 then None
                else
                  let tcp = drop ihl_bytes packet;
                      flags = tcp ! 13;
                      is_syn = (flags AND 0x02 \<noteq> 0 \<and> flags AND 0x10 = 0)
                  in Some (addr_at 12 packet, u16_at 0 tcp, addr_at 16 packet, u16_at 2 tcp, is_syn))"

record Ipv4UdpPacket =
  udp_src_ip :: Ipv4Addr
  udp_dst_ip :: Ipv4Addr
  udp_src_port :: u16
  udp_dst_port :: u16
  udp_payload :: bytes
  udp_identification :: u16

definition parse_ipv4_udp_packet :: "bytes \<Rightarrow> Ipv4UdpPacket option" where
  "parse_ipv4_udp_packet packet =
     (if length packet < 28 then None
      else
        let version = drop_bit 4 (packet ! 0); ihl = unat (packet ! 0 AND 0x0f)
        in if version \<noteq> 4 \<or> ihl < 5 \<or> packet ! 9 \<noteq> 17 then None
           else
             let hlen = ihl * 4
             in if length packet < hlen + 8 then None
                else
                  let total_len = unat (u16_at 2 packet)
                  in if total_len < hlen + 8 \<or> length packet < total_len then None
                     else if u16_at 6 packet AND 0x3fff \<noteq> 0 then None
                     else
                       let udp = drop hlen packet; udp_len = unat (u16_at 4 udp)
                       in if udp_len < 8 \<or> total_len < hlen + udp_len then None
                          else Some \<lparr> udp_src_ip = addr_at 12 packet, udp_dst_ip = addr_at 16 packet,
                                      udp_src_port = u16_at 0 udp, udp_dst_port = u16_at 2 udp,
                                      udp_payload = slice 8 udp_len udp,
                                      udp_identification = u16_at 4 packet \<rparr>)"

record Ipv4IcmpEchoPacket =
  icmp_src_ip :: Ipv4Addr
  icmp_dst_ip :: Ipv4Addr
  icmp_identification :: u16
  echo_identifier :: u16
  echo_sequence :: u16
  icmp_segment :: bytes

definition parse_ipv4_icmp_echo_packet :: "bytes \<Rightarrow> Ipv4IcmpEchoPacket option" where
  "parse_ipv4_icmp_echo_packet packet =
     (if length packet < 28 then None
      else
        let version = drop_bit 4 (packet ! 0); ihl = unat (packet ! 0 AND 0x0f)
        in if version \<noteq> 4 \<or> ihl < 5 \<or> packet ! 9 \<noteq> 1 then None
           else
             let hlen = ihl * 4
             in if length packet < hlen + 8 then None
                else
                  let total_len = unat (u16_at 2 packet)
                  in if total_len < hlen + 8 \<or> length packet < total_len then None
                     else if u16_at 6 packet AND 0x3fff \<noteq> 0 then None
                     else
                       let icmp = drop hlen packet
                       in if icmp ! 0 \<noteq> 8 \<or> icmp ! 1 \<noteq> 0 then None
                          else Some \<lparr> icmp_src_ip = addr_at 12 packet, icmp_dst_ip = addr_at 16 packet,
                                      icmp_identification = u16_at 4 packet,
                                      echo_identifier = u16_at 4 icmp, echo_sequence = u16_at 6 icmp,
                                      icmp_segment = slice hlen total_len packet \<rparr>)"

definition parse_ipv4_src_dst :: "bytes \<Rightarrow> (Ipv4Addr \<times> Ipv4Addr) option" where
  "parse_ipv4_src_dst packet =
     (if length packet < 20 then None
      else
        let version = drop_bit 4 (packet ! 0); ihl = unat (packet ! 0 AND 0x0f)
        in if version \<noteq> 4 \<or> ihl < 5 then None
           else
             let header_len = ihl * 4
             in if length packet < header_len then None
                else
                  let total_len = unat (u16_at 2 packet)
                  in if total_len < header_len \<or> length packet < total_len then None
                     else Some (addr_at 12 packet, addr_at 16 packet))"

subsection \<open>Builders\<close>

datatype BuildError = UdpResponseTooLarge | IcmpSegmentTooShort | IcmpResponseTooLarge

definition build_ipv4_udp_packet ::
  "Ipv4Addr \<Rightarrow> Ipv4Addr \<Rightarrow> u16 \<Rightarrow> u16 \<Rightarrow> u16 \<Rightarrow> bytes \<Rightarrow> (BuildError, bytes) res" where
  "build_ipv4_udp_packet src_ip dst_ip src_port dst_port identification payload =
     (let ip_hlen = 20; total_len = ip_hlen + 8 + length payload
      in if 65535 < total_len then Err UdpResponseTooLarge
         else
           let udp_len = (of_nat (8 + length payload) :: u16);
               pkt = replicate total_len 0;
               pkt = pkt[0 := 0x45];
               pkt = copy_at 2 (put_u16 (of_nat total_len)) pkt;
               pkt = copy_at 4 (put_u16 identification) pkt;
               pkt = copy_at 6 (put_u16 0x4000) pkt;
               pkt = pkt[8 := 64];
               pkt = pkt[9 := 17];
               pkt = copy_at 12 (octets src_ip) pkt;
               pkt = copy_at 16 (octets dst_ip) pkt;
               pkt = copy_at 20 (put_u16 src_port) pkt;
               pkt = copy_at 22 (put_u16 dst_port) pkt;
               pkt = copy_at 24 (put_u16 udp_len) pkt;
               pkt = copy_at 28 payload pkt;
               ip_cksum = ipv4_checksum (take ip_hlen pkt);
               pkt = copy_at 10 (put_u16 ip_cksum) pkt;
               udp_cksum = tcp_udp_checksum_ipv4 src_ip dst_ip 17 (drop 20 pkt);
               pkt = copy_at 26 (put_u16 udp_cksum) pkt
           in Ok pkt)"

definition build_ipv4_icmp_packet ::
  "Ipv4Addr \<Rightarrow> Ipv4Addr \<Rightarrow> u16 \<Rightarrow> bytes \<Rightarrow> (BuildError, bytes) res" where
  "build_ipv4_icmp_packet src_ip dst_ip identification segment =
     (let ip_hlen = 20
      in if length segment < 8 then Err IcmpSegmentTooShort
         else
           let total_len = ip_hlen + length segment
           in if 65535 < total_len then Err IcmpResponseTooLarge
              else
                let pkt = replicate total_len 0;
                    pkt = pkt[0 := 0x45];
                    pkt = copy_at 2 (put_u16 (of_nat total_len)) pkt;
                    pkt = copy_at 4 (put_u16 identification) pkt;
                    pkt = copy_at 6 (put_u16 0x4000) pkt;
                    pkt = pkt[8 := 64];
                    pkt = pkt[9 := 1];
                    pkt = copy_at 12 (octets src_ip) pkt;
                    pkt = copy_at 16 (octets dst_ip) pkt;
                    pkt = copy_at ip_hlen segment pkt;
                    pkt = copy_at (ip_hlen + 2) [0, 0] pkt;
                    ck = ones_complement_sum (drop ip_hlen pkt);
                    pkt = copy_at (ip_hlen + 2) (put_u16 ck) pkt;
                    ip_cksum = ipv4_checksum (take ip_hlen pkt);
                    pkt = copy_at 10 (put_u16 ip_cksum) pkt
                in Ok pkt)"

subsection \<open>The WireGuard envelope\<close>

definition IPV4_HDR_LEN :: nat where "IPV4_HDR_LEN = 20"
definition WG_FAKE_SRC_IP :: bytes where "WG_FAKE_SRC_IP = [100, 64, 0, 1]"
definition WG_FAKE_DST_IP :: bytes where "WG_FAKE_DST_IP = [100, 64, 0, 2]"

datatype EnvelopeError = IpPacketTooShort nat | MalformedIhl nat nat

definition wrap_in_ipv4 :: "bytes \<Rightarrow> bytes" where
  "wrap_in_ipv4 payload =
     (let total_len = IPV4_HDR_LEN + length payload;
          pkt = replicate total_len 0;
          pkt = pkt[0 := 0x45];
          pkt = pkt[1 := 0];
          tl = put_u16 (of_nat total_len);
          pkt = pkt[2 := tl ! 0];
          pkt = pkt[3 := tl ! 1];
          pkt = pkt[8 := 64];
          pkt = pkt[9 := 253];
          pkt = copy_at 12 WG_FAKE_SRC_IP pkt;
          pkt = copy_at 16 WG_FAKE_DST_IP pkt;
          csum = fold_carry (sum_words 0 (take IPV4_HDR_LEN pkt));
          csum = NOT (ucast csum :: u16);
          pkt = pkt[10 := ucast (drop_bit 8 csum)];
          pkt = pkt[11 := ucast (csum AND 0xff)]
      in copy_at IPV4_HDR_LEN payload pkt)"

definition unwrap_from_ipv4 :: "bytes \<Rightarrow> (EnvelopeError, bytes) res" where
  "unwrap_from_ipv4 ip_pkt =
     (if length ip_pkt < IPV4_HDR_LEN then Err (IpPacketTooShort (length ip_pkt))
      else
        let ihl = unat (ip_pkt ! 0 AND 0x0f) * 4
        in if length ip_pkt < ihl then Err (MalformedIhl ihl (length ip_pkt))
           else Ok (drop ihl ip_pkt))"

text \<open>The server's copies of the two functions (\<^verbatim>\<open>wireguard.rs\<close>).\<close>

definition server_wrap_in_ipv4 :: "bytes \<Rightarrow> bytes" where
  "server_wrap_in_ipv4 payload =
     (let total_len = IPV4_HDR_LEN + length payload;
          packet = replicate total_len 0;
          packet = packet[0 := 0x45];
          total_len_bytes = put_u16 (of_nat total_len);
          packet = packet[2 := total_len_bytes ! 0];
          packet = packet[3 := total_len_bytes ! 1];
          packet = packet[8 := 64];
          packet = packet[9 := 253];
          packet = copy_at 12 WG_FAKE_SRC_IP packet;
          packet = copy_at 16 WG_FAKE_DST_IP packet;
          checksum = fold_carry (sum_words 0 (take IPV4_HDR_LEN packet));
          checksum = NOT (ucast checksum :: u16);
          packet = packet[10 := ucast (drop_bit 8 checksum)];
          packet = packet[11 := ucast (checksum AND 0xff)]
      in copy_at IPV4_HDR_LEN payload packet)"

definition server_unwrap_from_ipv4 :: "bytes \<Rightarrow> (EnvelopeError, bytes) res" where
  "server_unwrap_from_ipv4 ip_packet =
     (if length ip_packet < IPV4_HDR_LEN then Err (IpPacketTooShort (length ip_packet))
      else
        let ihl = unat (ip_packet ! 0 AND 0x0f) * 4
        in if length ip_packet < ihl then Err (MalformedIhl ihl (length ip_packet))
           else Ok (drop ihl ip_packet))"

subsection \<open>One's-complement arithmetic\<close>

text \<open>The sum of the big-endian 16-bit words, as a natural number.\<close>

fun word_sum :: "bytes \<Rightarrow> nat" where
  "word_sum (a # b # rest) = unat a * 256 + unat b + word_sum rest"
| "word_sum [a] = unat a * 256"
| "word_sum [] = 0"

lemma word_sum_append: "even (length xs) \<Longrightarrow> word_sum (xs @ ys) = word_sum xs + word_sum ys"
  by (induction xs rule: word_sum.induct) simp_all

lemma word_sum_bound: "word_sum bs \<le> 65535 * (length bs div 2 + length bs mod 2)"
proof (induction bs rule: word_sum.induct)
  case (1 a b rest)
  have "unat a < 256" "unat b < 256" using unat_bound [of a] unat_bound [of b] by simp_all
  with 1 show ?case by simp
next
  case (2 a)
  have "unat a < 256" using unat_bound [of a] by simp
  then show ?case by simp
qed simp

lemma word_sum_small: "length bs \<le> 131000 \<Longrightarrow> word_sum bs < 2 ^ 32"
proof -
  assume "length bs \<le> 131000"
  then have "length bs div 2 + length bs mod 2 \<le> 65501" by linarith
  with word_sum_bound [of bs] show ?thesis by simp
qed

lemma unat_sum_words:
  "unat s + word_sum bs < 2 ^ 32 \<Longrightarrow> unat (sum_words s bs) = unat s + word_sum bs"
proof (induction s bs rule: sum_words.induct)
  case (1 s a b rest)
  let ?w = "ucast (get_u16 [a, b]) :: u32"
  have w: "unat ?w = unat a * 256 + unat b" by (simp only: unat_bits)
  then have "unat (s + ?w) = unat s + unat ?w"
    using 1(2) by (simp add: unat_word_ariths)
  with 1 w show ?case by simp
next
  case (2 s a)
  have "unat (push_bit 8 (ucast a) :: u32) = unat a * 256" by (simp only: unat_bits)
  moreover have "unat (s + push_bit 8 (ucast a)) = unat s + unat (push_bit 8 (ucast a) :: u32)"
    using 2 unfolding unat_word_ariths calculation by simp
  ultimately show ?case by simp
qed simp

lemma fold_carry_spec:
  "unat (fold_carry s) < 65536 \<and> unat (fold_carry s) mod 65535 = unat s mod 65535 \<and>
   (unat (fold_carry s) = 0 \<longleftrightarrow> unat s = 0)"
proof (induction s rule: fold_carry.induct)
  case (1 s)
  show ?case
  proof (cases "drop_bit 16 s = 0")
    case True
    then have "unat s div 65536 = 0" by (metis unat_drop_bit16 unsigned_0)
    then have "unat s < 65536" by linarith
    with True show ?thesis by (simp add: fold_carry.simps [of s])
  next
    case False
    let ?t = "(s AND 0xffff) + drop_bit 16 s"
    have fc: "fold_carry s = fold_carry ?t" by (subst fold_carry.simps) (simp only: False, simp)
    have "unat s = unat s div 65536 * 65535 + unat ?t" unfolding unat_carry by simp
    then have "unat ?t mod 65535 = unat s mod 65535" by (metis mod_mult_self3)
    moreover have "unat ?t = 0 \<longleftrightarrow> unat s = 0" unfolding unat_carry by auto
    ultimately show ?thesis using 1 [OF False] unfolding fc by simp
  qed
qed

definition checksum_residue :: "bytes \<Rightarrow> nat" where
  "checksum_residue bs = unat (fold_carry (sum_words 0 bs))"

lemma checksum_residue:
  assumes "length bs \<le> 131000"
  shows "checksum_residue bs < 65536" "checksum_residue bs mod 65535 = word_sum bs mod 65535"
    "checksum_residue bs = 0 \<longleftrightarrow> word_sum bs = 0"
  using fold_carry_spec [of "sum_words 0 bs"] unat_sum_words [of 0 bs] word_sum_small [OF assms]
  by (simp_all add: checksum_residue_def)

lemma unat_ones_complement_sum:
  "length bs \<le> 131000 \<Longrightarrow> unat (ones_complement_sum bs) = 65535 - checksum_residue bs"
  using checksum_residue(1) [of bs]
  by (simp add: ones_complement_sum_def unat_bits checksum_residue_def)

lemma ones_complement_zero:
  assumes "length bs \<le> 131000" "word_sum bs mod 65535 = 0" "0 < word_sum bs"
  shows "ones_complement_sum bs = 0"
proof -
  have "checksum_residue bs = 65535"
    using checksum_residue [OF assms(1)] assms(2,3) by (auto simp: mod_eq_0_iff_dvd dvd_def)
  then have "unat (ones_complement_sum bs) = 0" using unat_ones_complement_sum [OF assms(1)] by simp
  then show ?thesis by (simp add: unat_eq_zero)
qed

lemma word_sum_put_u16 [simp]: "word_sum (put_u16 w) = unat w"
  using unat_get_u16_pair [of "of_nat (unat w div 256)" "ucast w"] unfolding put_u16_pair by simp

lemma residue_arith:
  fixes S r c :: nat
  assumes "r < 65536" "r mod 65535 = S mod 65535" "r = 0 \<longleftrightarrow> S = 0"
    and "c = 65535 - r \<or> (r = 65535 \<and> c = 65535)"
  shows "(S + c) mod 65535 = 0 \<and> 0 < S + c"
proof -
  have "(S + c) mod 65535 = (r + c) mod 65535" using assms(2) by (metis mod_add_left_eq)
  moreover have "r + c = 65535 \<or> r + c = 131070" using assms(1,4) by auto
  then have "(r + c) mod 65535 = 0" by auto
  moreover have "0 < S + c" using assms(3,4) by auto
  ultimately show ?thesis by simp
qed

text \<open>
  Storing the checksum of the data in a field that was zero makes the sum over
  all of the data verify; the same holds when a zero checksum is sent as 0xffff.
\<close>

lemma checksum_verifies:
  assumes len: "length pre + length post \<le> 130000" and even: "even (length pre)"
    and ck: "ck = ones_complement_sum (pre @ [0, 0] @ post) \<or>
      (ones_complement_sum (pre @ [0, 0] @ post) = 0 \<and> ck = 0xffff)"
  shows "ones_complement_sum (pre @ put_u16 ck @ post) = 0"
proof -
  let ?z = "pre @ [0, 0] @ post" and ?d = "pre @ put_u16 ck @ post"
  have lz: "length ?z \<le> 131000" and ld: "length ?d \<le> 131000" using len by simp_all
  have S: "word_sum ?d = word_sum ?z + unat ck"
    using even by (simp add: word_sum_append)
  let ?r = "checksum_residue ?z"
  note r = checksum_residue [OF lz] unat_ones_complement_sum [OF lz]
  have c: "unat ck = 65535 - ?r \<or> (?r = 65535 \<and> unat ck = 65535)"
  proof -
    from ck show ?thesis
    proof
      assume "ck = ones_complement_sum ?z"
      then show ?thesis using r(4) by metis
    next
      assume z: "ones_complement_sum ?z = 0 \<and> ck = 0xffff"
      then have "65535 - ?r = 0" using r(4) by (metis unsigned_0)
      with z r(1) show ?thesis by simp
    qed
  qed
  have *: "(word_sum ?z + unat ck) mod 65535 = 0 \<and> 0 < word_sum ?z + unat ck"
    by (rule residue_arith [OF r(1-3) c])
  show ?thesis
    by (rule ones_complement_zero [OF ld]) (use S * in simp_all)
qed

lemma checksum_field_verifies:
  assumes "i + 2 \<le> length bs" "length bs \<le> 130000" "even i"
  shows "ones_complement_sum (copy_at i (put_u16 (ones_complement_sum (copy_at i [0, 0] bs))) bs) = 0"
proof -
  have "length (take i bs) + length (drop (i + 2) bs) \<le> 130000" "even (length (take i bs))"
    using assms by auto
  from checksum_verifies [OF this] show ?thesis by (simp add: copy_at_def)
qed

text \<open>The pseudo-header sum a receiver checks.\<close>

definition transport_checksum_ok :: "Ipv4Addr \<Rightarrow> Ipv4Addr \<Rightarrow> byte \<Rightarrow> bytes \<Rightarrow> bool" where
  "transport_checksum_ok src dst proto segment \<longleftrightarrow>
     ones_complement_sum (octets src @ octets dst @ [0, proto] @ put_u16 (of_nat (length segment)) @ segment @
       (if length segment mod 2 = 1 then [0] else [])) = 0"

definition header_checksum_ok :: "bytes \<Rightarrow> bool" where
  "header_checksum_ok packet \<longleftrightarrow> ones_complement_sum (take (unat (packet ! 0 AND 0x0f) * 4) packet) = 0"

lemma length_octets [simp]: "length (octets a) = 4"
  by (cases a) simp

lemma tcp_udp_checksum_verifies:
  assumes "even i" "i + 2 \<le> length seg" "length seg \<le> 129000"
  shows "transport_checksum_ok src dst proto
    (copy_at i (put_u16 (tcp_udp_checksum_ipv4 src dst proto (copy_at i [0, 0] seg))) seg)"
proof -
  let ?pad = "if length seg mod 2 = 1 then [0] else [] :: bytes"
  let ?pre = "octets src @ octets dst @ [0, proto] @ put_u16 (of_nat (length seg)) @ take i seg"
  let ?post = "drop (i + 2) seg @ ?pad"
  let ?sum = "ones_complement_sum (?pre @ [0, 0] @ ?post)"
  have len: "length (copy_at i [0, 0] seg) = length seg" using assms(2) by simp
  have ck: "tcp_udp_checksum_ipv4 src dst proto (copy_at i [0, 0] seg) = (if ?sum = 0 then 0xffff else ?sum)"
    unfolding tcp_udp_checksum_ipv4_def Let_def len by (simp add: copy_at_def)
  have "length ?pre + length ?post \<le> 130000" "even (length ?pre)" using assms by auto
  from checksum_verifies [OF this, of "if ?sum = 0 then 0xffff else ?sum"]
  have "ones_complement_sum (?pre @ put_u16 (if ?sum = 0 then 0xffff else ?sum) @ ?post) = 0" by simp
  moreover have "length (copy_at i (put_u16 c) seg) = length seg" for c using assms(2) by simp
  ultimately show ?thesis
    unfolding transport_checksum_ok_def ck by (simp only:) (simp add: copy_at_def)
qed

subsection \<open>Layout of built packets\<close>

definition ip_header :: "u16 \<Rightarrow> u16 \<Rightarrow> byte \<Rightarrow> bytes \<Rightarrow> Ipv4Addr \<Rightarrow> Ipv4Addr \<Rightarrow> bytes" where
  "ip_header tlen ident proto ck src dst =
     [0x45, 0] @ put_u16 tlen @ put_u16 ident @ put_u16 0x4000 @ [64, proto] @ ck @ octets src @ octets dst"

definition udp_segment :: "u16 \<Rightarrow> u16 \<Rightarrow> bytes \<Rightarrow> bytes \<Rightarrow> bytes" where
  "udp_segment sp dp ck payload = put_u16 sp @ put_u16 dp @ put_u16 (of_nat (8 + length payload)) @ ck @ payload"

definition sealed_header :: "u16 \<Rightarrow> u16 \<Rightarrow> byte \<Rightarrow> Ipv4Addr \<Rightarrow> Ipv4Addr \<Rightarrow> bytes" where
  "sealed_header tlen ident proto src dst =
     ip_header tlen ident proto (put_u16 (ipv4_checksum (ip_header tlen ident proto [0, 0] src dst))) src dst"

lemma length_sealed_header [simp]: "length (sealed_header tlen ident proto src dst) = 20"
  by (simp add: sealed_header_def ip_header_def)

lemma sealed_header_verifies [simp]: "ones_complement_sum (sealed_header tlen ident proto src dst) = 0"
  using checksum_verifies [of "[0x45, 0] @ put_u16 tlen @ put_u16 ident @ put_u16 0x4000 @ [64, proto]"
      "octets src @ octets dst" "ipv4_checksum (ip_header tlen ident proto [0, 0] src dst)"]
  by (simp add: sealed_header_def ipv4_checksum_def ip_header_def)

lemma sealed_header_fields:
  assumes "p = sealed_header tlen ident proto src dst @ body"
  shows "p ! 0 = 0x45" "p ! 9 = proto" "addr_at 12 p = src" "addr_at 16 p = dst"
    "u16_at 2 p = tlen" "u16_at 4 p = ident" "u16_at 6 p = 0x4000" "drop 20 p = body" "take 20 p = sealed_header tlen ident proto src dst"
proof -
  show "drop 20 p = body" "take 20 p = sealed_header tlen ident proto src dst" by (simp_all add: assms)
  obtain s1 s2 s3 s4 where s: "src = Ipv4Addr s1 s2 s3 s4" by (cases src)
  obtain d1 d2 d3 d4 where d: "dst = Ipv4Addr d1 d2 d3 d4" by (cases dst)
  show "p ! 0 = 0x45" "p ! 9 = proto" "addr_at 12 p = src" "addr_at 16 p = dst"
    "u16_at 2 p = tlen" "u16_at 4 p = ident" "u16_at 6 p = 0x4000"
    by (simp_all add: assms sealed_header_def ip_header_def put_u16_hi_lo addr_at_def u16_at_def s d)
qed

lemma build_ipv4_udp_packet_layout:
  assumes "length payload \<le> 65507"
  shows "build_ipv4_udp_packet src dst sp dp ident payload =
    Ok (sealed_header (of_nat (28 + length payload)) ident 17 src dst @
        udp_segment sp dp (put_u16 (tcp_udp_checksum_ipv4 src dst 17 (udp_segment sp dp [0, 0] payload))) payload)"
proof -
  obtain s1 s2 s3 s4 where s: "src = Ipv4Addr s1 s2 s3 s4" by (cases src)
  obtain d1 d2 d3 d4 where d: "dst = Ipv4Addr d1 d2 d3 d4" by (cases dst)
  have zeros: "replicate (20 + 8 + length payload) (0::byte) =
    [0,0,0,0, 0,0,0,0, 0,0,0,0, 0,0,0,0, 0,0,0,0, 0,0,0,0, 0,0,0,0] @ replicate (length payload) 0"
    by (simp add: numeral_eq_Suc)
  have small: "\<not> 65535 < 20 + 8 + length payload" using assms by simp
  show ?thesis
    unfolding build_ipv4_udp_packet_def Let_def if_not_P [OF small] zeros sealed_header_def ip_header_def
      udp_segment_def s d put_u16_hi_lo
    by (simp add: copy_at_all)
qed

lemma build_ipv4_icmp_packet_layout:
  assumes "8 \<le> length seg" "length seg \<le> 65515"
  shows "build_ipv4_icmp_packet src dst ident seg =
    Ok (sealed_header (of_nat (20 + length seg)) ident 1 src dst @
        copy_at 2 (put_u16 (ones_complement_sum (copy_at 2 [0, 0] seg))) seg)"
proof -
  obtain s1 s2 s3 s4 where s: "src = Ipv4Addr s1 s2 s3 s4" by (cases src)
  obtain d1 d2 d3 d4 where d: "dst = Ipv4Addr d1 d2 d3 d4" by (cases dst)
  obtain a0 a1 a2 a3 rest where seg: "seg = a0 # a1 # a2 # a3 # rest"
    using list_at_least_4 [of seg] assms(1) by auto
  have zeros: "replicate (20 + length seg) (0::byte) =
    [0,0,0,0, 0,0,0,0, 0,0,0,0, 0,0,0,0, 0,0,0,0] @ replicate (length seg) 0"
    by (simp add: numeral_eq_Suc)
  have small: "\<not> 65535 < 20 + length seg" "\<not> length seg < 8" using assms by simp_all
  show ?thesis
    unfolding build_ipv4_icmp_packet_def Let_def if_not_P [OF small(1)] if_not_P [OF small(2)] zeros
      sealed_header_def ip_header_def s d put_u16_hi_lo
    by (simp add: copy_at_all) (simp add: seg)
qed

lemma wrap_in_ipv4_layout:
  "wrap_in_ipv4 payload =
    (let hdr = (\<lambda>ck. [0x45, 0] @ put_u16 (of_nat (20 + length payload)) @ [0, 0, 0, 0, 64, 253] @ ck @
           WG_FAKE_SRC_IP @ WG_FAKE_DST_IP)
     in hdr (put_u16 (ones_complement_sum (hdr [0, 0]))) @ payload)"
proof -
  have zeros: "replicate (20 + length payload) (0::byte) =
    [0,0,0,0, 0,0,0,0, 0,0,0,0, 0,0,0,0, 0,0,0,0] @ replicate (length payload) 0"
    by (simp add: numeral_eq_Suc)
  have hi: "ucast (drop_bit 8 w) = hi_byte w" for w :: u16
  proof -
    have "unat (drop_bit 8 w) = unat w div 256"
      using unat_bound [of w] unfolding unsigned_drop_bit_eq by (simp add: drop_bit_eq_div take_bit_eq_mod)
    moreover have "(of_nat (unat (drop_bit 8 w)) :: byte) = ucast (drop_bit 8 w)" by (rule of_nat_unat)
    ultimately show ?thesis by (simp add: hi_byte_def)
  qed
  have lo: "ucast (w AND 0xff) = lo_byte w" for w :: u16
  proof -
    have "(0xff :: u16) = mask 8" by (simp add: mask_eq_exp_minus_1)
    then have "w AND 0xff = take_bit 8 w" by (simp only: take_bit_eq_mask)
    then show ?thesis unfolding lo_byte_def by (simp only:) (rule bit_word_eqI, simp add: bit_simps)
  qed
  show ?thesis
    unfolding wrap_in_ipv4_def Let_def IPV4_HDR_LEN_def zeros WG_FAKE_SRC_IP_def WG_FAKE_DST_IP_def
      hi lo ones_complement_sum_def put_u16_hi_lo
    by (simp add: copy_at_all)
qed

lemma server_wrap_eq: "server_wrap_in_ipv4 = wrap_in_ipv4"
proof -
  have "packet[Suc 0 := 0] = packet" if "packet = (replicate (20 + n) (0::byte))[0 := 0x45]" for packet n
    unfolding that by (simp add: list_update_same_conv nth_list_update)
  then show ?thesis
    unfolding server_wrap_in_ipv4_def wrap_in_ipv4_def Let_def IPV4_HDR_LEN_def fun_eq_iff by simp
qed

lemma server_unwrap_eq: "server_unwrap_from_ipv4 = unwrap_from_ipv4"
  by (simp add: fun_eq_iff server_unwrap_from_ipv4_def unwrap_from_ipv4_def)

lemma unwrap_wrap [simp]: "unwrap_from_ipv4 (wrap_in_ipv4 payload) = Ok payload"
  by (simp add: unwrap_from_ipv4_def wrap_in_ipv4_layout Let_def IPV4_HDR_LEN_def put_u16_hi_lo
      WG_FAKE_SRC_IP_def WG_FAKE_DST_IP_def)

subsection \<open>Rewritten packets\<close>

lemma sealed_rewrite:
  assumes "20 \<le> ihl" "ihl \<le> length pkt" "ihl \<le> 130000"
  defines "q \<equiv> copy_at 10 (put_u16 (ipv4_checksum (take ihl (copy_at 10 [0, 0] pkt)))) (copy_at 10 [0, 0] pkt)"
  shows "length q = length pkt" "ones_complement_sum (take ihl q) = 0"
    "\<And>n. n < length pkt \<Longrightarrow> n \<noteq> 10 \<Longrightarrow> n \<noteq> 11 \<Longrightarrow> q ! n = pkt ! n"
proof -
  let ?ck = "ones_complement_sum (copy_at 10 [0, 0] (take ihl pkt))"
  have q: "q = copy_at 10 (put_u16 ?ck) pkt"
    using assms(1,2) by (simp add: q_def ipv4_checksum_def take_copy_at copy_at_again)
  show "length q = length pkt" using assms(1,2) by (simp add: q)
  have "take ihl q = copy_at 10 (put_u16 ?ck) (take ihl pkt)"
    using assms(1,2) by (simp add: q take_copy_at)
  then show "ones_complement_sum (take ihl q) = 0"
    using checksum_field_verifies [of 10 "take ihl pkt"] assms(1-3) by simp
  show "q ! n = pkt ! n" if "n < length pkt" "n \<noteq> 10" "n \<noteq> 11" for n
    using that assms(1,2) by (auto simp: q copy_at_nth)
qed

lemma ihl_bound: "unat (b AND 0x0f) * 4 \<le> 60" for b :: byte
proof -
  have "unat (b AND 0x0f) < 16" by (simp add: unat_and_0f)
  then show ?thesis by simp
qed

lemma rewrite_dst_ip_inbound_Some:
  assumes "rewrite_dst_ip_inbound p = Return (Some q)" "5 \<le> unat (p ! 0 AND 0x0f)"
  shows "length q = length p" "20 \<le> length p" "header_checksum_ok q"
    "\<And>n. n < length p \<Longrightarrow> n \<noteq> 10 \<Longrightarrow> n \<noteq> 11 \<Longrightarrow>
       q ! n = (if 16 \<le> n \<and> n < 20 then SMOLTCP_IP_ARRAY ! (n - 16) else p ! n)"
proof -
  let ?p1 = "copy_at 16 SMOLTCP_IP_ARRAY p" and ?ihl = "unat (p ! 0 AND 0x0f) * 4"
  have len: "20 \<le> length p" using assms(1) by (auto simp: rewrite_dst_ip_inbound_def Let_def split: if_splits)
  have ip: "length SMOLTCP_IP_ARRAY = 4" by (simp add: SMOLTCP_IP_ARRAY_def)
  have nth1: "?p1 ! n = (if 16 \<le> n \<and> n < 20 then SMOLTCP_IP_ARRAY ! (n - 16) else p ! n)" if "n < length p" for n
    using that len ip by (simp add: copy_at_nth)
  have z: "?p1 ! 0 = p ! 0" by (subst nth1) (use len in auto)
  have l1: "length ?p1 = length p" using len ip by simp
  have q: "?ihl \<le> length p" "q = copy_at 10 (put_u16 (ipv4_checksum (take ?ihl (copy_at 10 [0, 0] ?p1)))) (copy_at 10 [0, 0] ?p1)"
    using assms(1) len l1 z by (auto simp: rewrite_dst_ip_inbound_def Let_def split: if_splits)
  have b: "20 \<le> ?ihl" "?ihl \<le> length ?p1" "?ihl \<le> 130000"
    using assms(2) q(1) l1 ihl_bound [of "p ! 0"] by simp_all
  note s = sealed_rewrite [OF b, folded q(2)]
  show "length q = length p" "20 \<le> length p" using s(1) l1 len by simp_all
  show nth: "q ! n = (if 16 \<le> n \<and> n < 20 then SMOLTCP_IP_ARRAY ! (n - 16) else p ! n)"
    if "n < length p" "n \<noteq> 10" "n \<noteq> 11" for n
    using s(3) [of n] nth1 [of n] that l1 by simp
  have "q ! 0 = p ! 0" by (subst nth) (use len in auto)
  then show "header_checksum_ok q" using s(2) by (simp add: header_checksum_ok_def)
qed

lemma drop_nth_eq:
  assumes "length q = length p" "\<And>n. k \<le> n \<Longrightarrow> n < length p \<Longrightarrow> q ! n = p ! n"
  shows "drop k q = drop k p"
  by (rule nth_equalityI) (use assms in auto)

lemma rewrite_inbound_parse:
  assumes "rewrite_dst_ip_inbound p = Return (Some q)" "5 \<le> unat (p ! 0 AND 0x0f)"
  shows "parse_ipv4_tcp_tuple_flags q =
    map_option (\<lambda>(s, sp, d, dp, fl). (s, sp, Ipv4Addr 10 200 0 1, dp, fl)) (parse_ipv4_tcp_tuple_flags p)"
proof (cases "40 \<le> length p")
  case False
  then show ?thesis using rewrite_dst_ip_inbound_Some(1) [OF assms] by (simp add: parse_ipv4_tcp_tuple_flags_def)
next
  case True
  note r = rewrite_dst_ip_inbound_Some [OF assms]
  have at: "q ! 0 = p ! 0" "q ! 9 = p ! 9" "q ! 12 = p ! 12" "q ! 13 = p ! 13" "q ! 14 = p ! 14" "q ! 15 = p ! 15"
    "q ! 16 = 10" "q ! 17 = 200" "q ! 18 = 0" "q ! 19 = 1"
    using True r(4) [of 0] r(4) [of 9] r(4) [of 12] r(4) [of 13] r(4) [of 14] r(4) [of 15]
      r(4) [of 16] r(4) [of 17] r(4) [of 18] r(4) [of 19]
    by (simp_all add: SMOLTCP_IP_ARRAY_def length_greater_0_conv [symmetric] del: length_greater_0_conv)
  have tail: "drop (unat (p ! 0 AND 0x0f) * 4) q = drop (unat (p ! 0 AND 0x0f) * 4) p"
    by (rule drop_nth_eq) (use assms(2) r(1,4) in auto)
  show ?thesis
    using True r(1)
    unfolding parse_ipv4_tcp_tuple_flags_def Let_def at tail by (simp add: addr_at_def at)
qed

lemma octets_nth: "addr_at i p = a \<longleftrightarrow>
    p ! i = octets a ! 0 \<and> p ! (i + 1) = octets a ! 1 \<and> p ! (i + 2) = octets a ! 2 \<and> p ! (i + 3) = octets a ! 3"
  by (cases a) (auto simp: addr_at_def)

text \<open>The packet after the source address and the header checksum have been replaced.\<close>

definition resourced :: "bytes \<Rightarrow> Ipv4Addr \<Rightarrow> bytes" where
  "resourced pkt a = (let p1 = copy_at 12 (octets a) pkt;
     ihl = unat (pkt ! 0 AND 0x0f) * 4
     in copy_at 10 (put_u16 (ipv4_checksum (take ihl (copy_at 10 [0, 0] p1)))) (copy_at 10 [0, 0] p1))"

lemma resourced_facts:
  assumes "20 \<le> length pkt" "5 \<le> unat (pkt ! 0 AND 0x0f)" "unat (pkt ! 0 AND 0x0f) * 4 \<le> length pkt"
  shows "length (resourced pkt a) = length pkt"
    "ones_complement_sum (take (unat (pkt ! 0 AND 0x0f) * 4) (resourced pkt a)) = 0"
    "\<And>n. n < length pkt \<Longrightarrow> n \<noteq> 10 \<Longrightarrow> n \<noteq> 11 \<Longrightarrow>
       resourced pkt a ! n = (if 12 \<le> n \<and> n < 16 then octets a ! (n - 12) else pkt ! n)"
    "addr_at 12 (resourced pkt a) = a" "addr_at 16 (resourced pkt a) = addr_at 16 pkt"
    "resourced pkt a ! 0 = pkt ! 0" "resourced pkt a ! 9 = pkt ! 9" "u16_at 2 (resourced pkt a) = u16_at 2 pkt"
proof -
  let ?p1 = "copy_at 12 (octets a) pkt" and ?ihl = "unat (pkt ! 0 AND 0x0f) * 4" and ?q = "resourced pkt a"
  have l1: "length ?p1 = length pkt" using assms(1) by simp
  have b: "20 \<le> ?ihl" "?ihl \<le> length ?p1" "?ihl \<le> 130000"
    using assms ihl_bound [of "pkt ! 0"] l1 by simp_all
  have q: "copy_at 10 (put_u16 (ipv4_checksum (take ?ihl (copy_at 10 [0, 0] ?p1)))) (copy_at 10 [0, 0] ?p1) = ?q"
    by (simp add: resourced_def Let_def)
  note s = sealed_rewrite [OF b, unfolded q]
  show "length ?q = length pkt" "ones_complement_sum (take ?ihl ?q) = 0" using s(1,2) l1 by simp_all
  show nth: "?q ! n = (if 12 \<le> n \<and> n < 16 then octets a ! (n - 12) else pkt ! n)"
    if "n < length pkt" "n \<noteq> 10" "n \<noteq> 11" for n
    using s(3) [of n] that l1 assms(1) by (simp add: copy_at_nth)
  have pos: "0 < length pkt" using assms(1) by linarith
  show "?q ! 0 = pkt ! 0" "?q ! 9 = pkt ! 9" using nth [of 0] nth [of 9] pos assms(1) by simp_all
  show "addr_at 12 ?q = a"
    using nth [of 12] nth [of 13] nth [of 14] nth [of 15] assms(1) by (simp add: octets_nth)
  show "addr_at 16 ?q = addr_at 16 pkt"
    using nth [of 16] nth [of 17] nth [of 18] nth [of 19] assms(1) by (simp add: addr_at_def)
  show "u16_at 2 ?q = u16_at 2 pkt"
    using nth [of 2] nth [of 3] assms(1) by (simp add: u16_at_def)
qed

lemma rewrite_src_ip_outbound_tcp:
  assumes "20 \<le> length pkt" "ihl = unat (pkt ! 0 AND 0x0f) * 4" "20 \<le> ihl"
    and "tlen = unat (u16_at 2 pkt)" "ihl + 20 \<le> tlen" "tlen \<le> length pkt" "pkt ! 9 = 6"
    and tr_def: "tr = slice ihl tlen (resourced pkt a)"
  shows "rewrite_src_ip_outbound pkt a = Return (copy_at ihl
    (copy_at 16 (put_u16 (tcp_udp_checksum_ipv4 a (addr_at 16 pkt) 6 (copy_at 16 [0, 0] tr))) tr) (resourced pkt a))"
proof -
  have n5: "5 \<le> unat (pkt ! 0 AND 0x0f)" "unat (pkt ! 0 AND 0x0f) * 4 \<le> length pkt"
    using assms(2,3,5,6) by linarith+
  note r = resourced_facts [OF assms(1) n5]
  have l: "length (copy_at 10 [0, 0] (copy_at 12 (octets a) pkt)) = length pkt" using assms(1) by simp
  have res: "copy_at 10 (put_u16 (ipv4_checksum (take ihl (copy_at 10 [0, 0] (copy_at 12 (octets a) pkt)))))
      (copy_at 10 [0, 0] (copy_at 12 (octets a) pkt)) = resourced pkt a"
    by (simp add: resourced_def Let_def assms(2))
  have tr: "length tr = tlen - ihl" using assms(6) r(1) by (simp add: tr_def)
  have again: "copy_at 16 c (copy_at 16 [0, 0] tr) = copy_at 16 c tr" if "length c = 2" for c
    using tr assms(5) that by (simp add: copy_at_again)
  have conds: "\<not> length pkt < 20" "\<not> length pkt < ihl" "\<not> (length pkt < tlen \<or> tlen < ihl)" "6 = (6::byte) \<and> 20 \<le> length tr"
    using assms(1,3,5,6) tr by auto
  show ?thesis
    unfolding rewrite_src_ip_outbound_def Let_def assms(2) [symmetric] res l r(1,4-8) assms(7)
      assms(4) [symmetric] if_not_P [OF conds(1)] if_not_P [OF conds(2)] if_not_P [OF conds(3)]
      tr_def [symmetric] if_P [OF conds(4)]
    by (simp add: again)
qed

lemma built_udp_facts:
  assumes "length payload \<le> 65507" "build_ipv4_udp_packet src dst sp dp ident payload = Ok pkt"
  shows "parse_ipv4_udp_packet pkt = Some \<lparr> udp_src_ip = src, udp_dst_ip = dst, udp_src_port = sp,
         udp_dst_port = dp, udp_payload = payload, udp_identification = ident \<rparr>"
    "header_checksum_ok pkt" "transport_checksum_ok src dst 17 (drop 20 pkt)"
proof -
  let ?n = "length payload" and ?z = "udp_segment sp dp [0, 0] payload"
  let ?ck = "tcp_udp_checksum_ipv4 src dst 17 ?z"
  let ?seg = "udp_segment sp dp (put_u16 ?ck) payload"
  have pkt: "pkt = sealed_header (of_nat (28 + ?n)) ident 17 src dst @ ?seg"
    using assms(2) unfolding build_ipv4_udp_packet_layout [OF assms(1)] by (simp only: sum.inject)
  note f = sealed_header_fields [OF pkt]
  have lens: "unat (of_nat (28 + ?n) :: u16) = 28 + ?n" "unat (of_nat (8 + ?n) :: u16) = 8 + ?n"
    using assms(1) by - (rule unat_of_nat_small, simp)+
  have seg: "length ?seg = 8 + ?n" "u16_at 0 ?seg = sp" "u16_at 2 ?seg = dp" "u16_at 4 ?seg = of_nat (8 + ?n)"
    "slice 8 (8 + ?n) ?seg = payload"
    by (simp_all add: udp_segment_def u16_at_def put_u16_hi_lo slice_def)
  have len: "length pkt = 28 + ?n" by (simp add: pkt seg(1))
  show "parse_ipv4_udp_packet pkt = Some \<lparr> udp_src_ip = src, udp_dst_ip = dst, udp_src_port = sp,
      udp_dst_port = dp, udp_payload = payload, udp_identification = ident \<rparr>"
    unfolding parse_ipv4_udp_packet_def Let_def f len
    by (simp only: lens) (simp add: f seg lens del: of_nat_add)
  show "header_checksum_ok pkt" by (simp add: header_checksum_ok_def f)
  have "copy_at 6 (put_u16 ?ck) ?z = ?seg" "copy_at 6 [0, 0] ?z = ?z"
    by (simp_all add: udp_segment_def put_u16_hi_lo)
  then show "transport_checksum_ok src dst 17 (drop 20 pkt)"
    using tcp_udp_checksum_verifies [of 6 ?z src dst 17] assms(1) by (simp add: f(8)) (simp add: udp_segment_def)
qed

lemmas parse_built_udp = built_udp_facts(1)

subsection \<open>Properties\<close>

text \<open>
  C9.  A UDP reply that is built parses back to the addresses, ports, identification
  and payload it was built from, with a valid header checksum and a valid UDP
  checksum; the only failure is a payload that does not fit an IPv4 packet.
\<close>

theorem udp_build_parse:
  "case build_ipv4_udp_packet src dst sp dp ident payload of
     Inl e \<Rightarrow> e = UdpResponseTooLarge \<and> 65507 < length payload
   | Inr pkt \<Rightarrow> length payload \<le> 65507 \<and>
       parse_ipv4_udp_packet pkt = Some \<lparr> udp_src_ip = src, udp_dst_ip = dst, udp_src_port = sp,
         udp_dst_port = dp, udp_payload = payload, udp_identification = ident \<rparr> \<and>
       header_checksum_ok pkt \<and> transport_checksum_ok src dst 17 (drop 20 pkt)"
proof (cases "length payload \<le> 65507")
  case False
  then show ?thesis by (simp add: build_ipv4_udp_packet_def)
next
  case True
  obtain pkt where "build_ipv4_udp_packet src dst sp dp ident payload = Ok pkt"
    using build_ipv4_udp_packet_layout [OF True] by blast
  with built_udp_facts [OF True this] True show ?thesis by simp
qed

text \<open>
  An ICMP reply that is built carries the requested addresses and identification,
  a valid header checksum and a valid ICMP checksum, and the segment is changed
  in its checksum field only.
\<close>

theorem icmp_build_valid:
  "case build_ipv4_icmp_packet src dst ident seg of
     Inl e \<Rightarrow> e = IcmpSegmentTooShort \<and> length seg < 8 \<or> e = IcmpResponseTooLarge \<and> 65515 < length seg
   | Inr pkt \<Rightarrow> length pkt = 20 + length seg \<and> addr_at 12 pkt = src \<and> addr_at 16 pkt = dst \<and>
       u16_at 4 pkt = ident \<and> pkt ! 9 = 1 \<and> unat (u16_at 2 pkt) = length pkt \<and>
       header_checksum_ok pkt \<and> ones_complement_sum (drop 20 pkt) = 0 \<and>
       take 2 (drop 20 pkt) = take 2 seg \<and> drop 24 pkt = drop 4 seg"
proof (cases "8 \<le> length seg \<and> length seg \<le> 65515")
  case False
  then consider "length seg < 8" | "\<not> length seg < 8" "65535 < 20 + length seg" by linarith
  then have "build_ipv4_icmp_packet src dst ident seg = Err IcmpSegmentTooShort \<and> length seg < 8 \<or>
      build_ipv4_icmp_packet src dst ident seg = Err IcmpResponseTooLarge \<and> 65515 < length seg"
    by cases (simp_all add: build_ipv4_icmp_packet_def)
  then show ?thesis by auto
next
  case True
  let ?body = "copy_at 2 (put_u16 (ones_complement_sum (copy_at 2 [0, 0] seg))) seg"
  define pkt where pkt: "pkt = sealed_header (of_nat (20 + length seg)) ident 1 src dst @ ?body"
  note f = sealed_header_fields [OF pkt]
  have len: "length ?body = length seg" using True by simp
  have tl: "unat (of_nat (20 + length seg) :: u16) = 20 + length seg"
    using True by - (rule unat_of_nat_small, simp)
  have "ones_complement_sum ?body = 0" using True by (simp add: checksum_field_verifies)
  moreover have "drop 24 pkt = drop 4 (drop 20 pkt)" by simp
  then have "drop 24 pkt = drop 4 seg" using True by (simp add: f drop_copy_at)
  moreover have "take 2 ?body = take 2 seg" using True by (simp add: copy_at_def)
  moreover have "build_ipv4_icmp_packet src dst ident seg = Ok pkt"
    by (simp only: build_ipv4_icmp_packet_layout [OF conjunct1 [OF True] conjunct2 [OF True]] pkt)
  moreover have "length pkt = 20 + length seg" using len by (simp add: pkt)
  moreover have "header_checksum_ok pkt" by (simp add: header_checksum_ok_def f)
  ultimately show ?thesis using f tl by (simp del: of_nat_add)
qed

text \<open>
  The envelope that carries session frames through the WireGuard engine is lossless
  between the two implementations, in both directions and for every payload, and
  its header checksum is valid.
\<close>

theorem wireguard_envelope:
  "server_unwrap_from_ipv4 (wrap_in_ipv4 payload) = Ok payload \<and>
   unwrap_from_ipv4 (server_wrap_in_ipv4 payload) = Ok payload \<and>
   header_checksum_ok (wrap_in_ipv4 payload)"
proof -
  let ?pre = "[0x45, 0] @ put_u16 (of_nat (20 + length payload)) @ [0, 0, 0, 0, 64, 253]"
  let ?post = "WG_FAKE_SRC_IP @ WG_FAKE_DST_IP"
  have "ones_complement_sum (?pre @ put_u16 (ones_complement_sum (?pre @ [0, 0] @ ?post)) @ ?post) = 0"
    by (rule checksum_verifies) (simp_all add: WG_FAKE_SRC_IP_def WG_FAKE_DST_IP_def)
  then have "header_checksum_ok (wrap_in_ipv4 payload)"
    by (simp add: header_checksum_ok_def wrap_in_ipv4_layout Let_def WG_FAKE_SRC_IP_def WG_FAKE_DST_IP_def)
  then show ?thesis by (simp add: server_wrap_eq server_unwrap_eq)
qed



text \<open>
  C11.  A TCP segment of the user-space stack is re-addressed to the original server
  before it reaches the client: source address replaced, destination and every
  byte outside the address and the two checksum fields kept, header and TCP
  checksum both valid for the new addresses.
\<close>

theorem rewrite_outbound_valid:
  assumes "ihl = unat (pkt ! 0 AND 0x0f) * 4" "20 \<le> ihl" "ihl + 20 \<le> unat (u16_at 2 pkt)"
    and "unat (u16_at 2 pkt) \<le> length pkt" "pkt ! 9 = 6"
  shows "\<exists>q. rewrite_src_ip_outbound pkt a = Return q \<and> length q = length pkt \<and>
    addr_at 12 q = a \<and> addr_at 16 q = addr_at 16 pkt \<and> header_checksum_ok q \<and>
    transport_checksum_ok a (addr_at 16 pkt) 6 (slice ihl (unat (u16_at 2 pkt)) q) \<and>
    (\<forall>n < length pkt. n \<in> {10, 11, 12, 13, 14, 15, ihl + 16, ihl + 17} \<or> q ! n = pkt ! n)"
proof -
  let ?tlen = "unat (u16_at 2 pkt)"
  have pl: "20 \<le> length pkt" "5 \<le> unat (pkt ! 0 AND 0x0f)" "unat (pkt ! 0 AND 0x0f) * 4 \<le> length pkt"
    using assms by linarith+
  note r = resourced_facts [OF pl, where a=a]
  define tr where tr: "tr = slice ihl ?tlen (resourced pkt a)"
  let ?ck = "put_u16 (tcp_udp_checksum_ipv4 a (addr_at 16 pkt) 6 (copy_at 16 [0, 0] tr))"
  define q where q: "q = copy_at ihl (copy_at 16 ?ck tr) (resourced pkt a)"
  have ltr: "length tr = ?tlen - ihl" using assms(4) r(1) by (simp add: tr)
  have lseg: "length (copy_at 16 ?ck tr) = ?tlen - ihl" using ltr assms(3) by simp
  have fit: "ihl + length (copy_at 16 ?ck tr) \<le> length (resourced pkt a)" using lseg assms(3,4) r(1) by simp
  have len: "length q = length pkt" using fit r(1) by (simp add: q)
  have qn: "q ! n = (if ihl \<le> n \<and> n < ?tlen then copy_at 16 ?ck tr ! (n - ihl) else resourced pkt a ! n)"
    if "n < length pkt" for n
    using copy_at_nth [OF fit, of n] that r(1) lseg assms(3) by (simp add: q)
  have low: "q ! n = resourced pkt a ! n" if "n < ihl" for n
    using qn [of n] that assms(3,4) by simp
  have addr: "addr_at 12 q = a" "addr_at 16 q = addr_at 16 pkt"
    using r(4,5) low assms(2) by (simp_all add: addr_at_def)
  have q0: "q ! 0 = pkt ! 0" using low [of 0] r(6) assms(2) by simp
  have "take ihl q = take ihl (resourced pkt a)" using fit by (simp add: q copy_at_def)
  then have hdr: "header_checksum_ok q" using r(2) q0 assms(1) by (simp add: header_checksum_ok_def)
  have "slice ihl ?tlen q = copy_at 16 ?ck tr"
    unfolding q by (rule slice_copy_at) (use lseg assms(3,4) r(1) in auto)
  moreover have "length tr \<le> 129000" using ltr unat_bound [of "u16_at 2 pkt"] by simp
  ultimately have tcp: "transport_checksum_ok a (addr_at 16 pkt) 6 (slice ihl ?tlen q)"
    using tcp_udp_checksum_verifies [of 16 tr a "addr_at 16 pkt" 6] ltr assms(3) by simp
  have same: "n \<in> {10, 11, 12, 13, 14, 15, ihl + 16, ihl + 17} \<or> q ! n = pkt ! n" if n: "n < length pkt" for n
  proof (cases "ihl \<le> n \<and> n < ?tlen \<and> n \<noteq> ihl + 16 \<and> n \<noteq> ihl + 17")
    case True
    then have "copy_at 16 ?ck tr ! (n - ihl) = tr ! (n - ihl)"
      using ltr assms(3) by (subst copy_at_nth) auto
    also have "\<dots> = resourced pkt a ! n" using True assms(4) r(1) unfolding tr by (subst nth_slice) auto
    finally have "q ! n = resourced pkt a ! n" using qn [OF n] True by simp
    moreover have "n \<noteq> 10" "n \<noteq> 11" "\<not> (12 \<le> n \<and> n < 16)" using True assms(2) by linarith+
    ultimately show ?thesis using r(3) [OF n] by simp
  next
    case False
    then have "n = ihl + 16 \<or> n = ihl + 17 \<or> q ! n = resourced pkt a ! n" using qn [OF n] by auto
    moreover have "12 \<le> n \<and> n < 16 \<longleftrightarrow> n \<in> {12, 13, 14, 15}" by auto
    ultimately show ?thesis using r(3) [OF n] by auto
  qed
  have ret: "rewrite_src_ip_outbound pkt a = Return q"
    unfolding q by (rule rewrite_src_ip_outbound_tcp [OF pl(1) assms(1,2) refl assms(3,4,5) tr])
  show ?thesis
    by (intro exI [of _ q] conjI ret len addr hdr tcp allI impI same)
qed

theorem rewrite_outbound_valid_witness:
  "\<exists>q. rewrite_src_ip_outbound (copy_at 0 [0x45, 0, 0, 40, 0, 0, 0, 0, 64, 6] (replicate 40 0)) (Ipv4Addr 1 2 3 4) = Return q \<and>
     addr_at 12 q = Ipv4Addr 1 2 3 4 \<and> header_checksum_ok q"
proof -
  let ?p = "copy_at 0 [0x45, 0, 0, 40, 0, 0, 0, 0, 64, 6] (replicate 40 0) :: bytes"
  have "?p ! 0 = 0x45" "?p ! 9 = 6" "?p ! 2 = 0" "?p ! 3 = 40" "length ?p = 40"
    by (simp_all add: copy_at_nth)
  then have "20 = unat (?p ! 0 AND 0x0f) * 4" "20 \<le> (20::nat)" "20 + 20 \<le> unat (u16_at 2 ?p)"
    "unat (u16_at 2 ?p) \<le> length ?p" "?p ! 9 = 6"
    by (simp_all add: u16_at_def unat_get_u16_pair)
  from rewrite_outbound_valid [OF this] show ?thesis by blast
qed

end
