(* ===== verification/Strings.thy ===== *)
theory Strings
  imports Prelude Packets
begin

text \<open>
  The string functions of the Rust standard library that the sources use.  A
  string is the list of its UTF-8 bytes (a HOL \<open>char\<close> is a byte), so lengths and
  slices agree with \<^verbatim>\<open>str::len\<close> and byte slicing; \<^verbatim>\<open>trim\<close> strips ASCII white space,
  which is all the sources meet in addresses, numbers and headers.
\<close>

abbreviation char_code :: "char \<Rightarrow> nat" where "char_code c \<equiv> of_char c"

definition is_white :: "char \<Rightarrow> bool" where
  "is_white c \<longleftrightarrow> char_code c = 32 \<or> (9 \<le> char_code c \<and> char_code c \<le> 13)"

definition trim_start :: "string \<Rightarrow> string" where "trim_start s = dropWhile is_white s"
definition trim_end :: "string \<Rightarrow> string" where "trim_end s = rev (dropWhile is_white (rev s))"
definition trim :: "string \<Rightarrow> string" where "trim s = trim_end (trim_start s)"

definition to_lower :: "char \<Rightarrow> char" where
  "to_lower c = (if 65 \<le> char_code c \<and> char_code c \<le> 90 then char_of (char_code c + 32) else c)"

definition to_ascii_lowercase :: "string \<Rightarrow> string" where
  "to_ascii_lowercase s = map to_lower s"

definition eq_ignore_ascii_case :: "string \<Rightarrow> string \<Rightarrow> bool" where
  "eq_ignore_ascii_case a b \<longleftrightarrow> to_ascii_lowercase a = to_ascii_lowercase b"

definition starts_with :: "string \<Rightarrow> string \<Rightarrow> bool" where
  "starts_with p s \<longleftrightarrow> take (length p) s = p"

fun string_less :: "string \<Rightarrow> string \<Rightarrow> bool" where
  "string_less _ [] = False"
| "string_less [] (_ # _) = True"
| "string_less (a # s) (b # t) = (char_code a < char_code b \<or> a = b \<and> string_less s t)"

definition strip_prefix :: "string \<Rightarrow> string \<Rightarrow> string option" where
  "strip_prefix p s = (if starts_with p s then Some (drop (length p) s) else None)"

fun contains_str :: "string \<Rightarrow> string \<Rightarrow> bool" where
  "contains_str p [] = (p = [])"
| "contains_str p (c # s) = (starts_with p (c # s) \<or> contains_str p s)"

text \<open>\<^verbatim>\<open>str::split(char)\<close>: always at least one piece.\<close>

fun split_char :: "char \<Rightarrow> string \<Rightarrow> string list" where
  "split_char d [] = [[]]"
| "split_char d (c # s) =
     (if c = d then [] # split_char d s
      else case split_char d s of [] \<Rightarrow> [[c]] | p # ps \<Rightarrow> (c # p) # ps)"

fun join_char :: "char \<Rightarrow> string list \<Rightarrow> string" where
  "join_char d [] = []"
| "join_char d [p] = p"
| "join_char d (p # q # ps) = p @ d # join_char d (q # ps)"

text \<open>\<^verbatim>\<open>split_once\<close> and \<^verbatim>\<open>rsplit_once\<close> at a character.\<close>

fun split_once :: "char \<Rightarrow> string \<Rightarrow> (string \<times> string) option" where
  "split_once d [] = None"
| "split_once d (c # s) =
     (if c = d then Some ([], s)
      else case split_once d s of None \<Rightarrow> None | Some (a, b) \<Rightarrow> Some (c # a, b))"

definition rsplit_once :: "char \<Rightarrow> string \<Rightarrow> (string \<times> string) option" where
  "rsplit_once d s = (case split_once d (rev s) of None \<Rightarrow> None | Some (b, a) \<Rightarrow> Some (rev a, rev b))"

text \<open>\<^verbatim>\<open>str::lines\<close> and \<^verbatim>\<open>split_whitespace\<close>.\<close>

definition str_lines :: "string \<Rightarrow> string list" where
  "str_lines s =
     (let ls = split_char (CHR 0x0A) s;
          ls = (if last ls = [] then butlast ls else ls)
      in map (\<lambda>l. if l \<noteq> [] \<and> last l = CHR 0x0D then butlast l else l) ls)"

fun split_ws :: "string \<Rightarrow> string \<Rightarrow> string list" where
  "split_ws acc [] = (if acc = [] then [] else [rev acc])"
| "split_ws acc (c # s) =
     (if is_white c then (if acc = [] then split_ws [] s else rev acc # split_ws [] s)
      else split_ws (c # acc) s)"

text \<open>\<^verbatim>\<open>as_bytes\<close> and the string of some bytes.\<close>

definition as_bytes :: "string \<Rightarrow> bytes" where
  "as_bytes s = map (\<lambda>c. of_nat (char_code c)) s"

definition bytes_str :: "bytes \<Rightarrow> string" where
  "bytes_str b = map (\<lambda>x. char_of (unat x)) b"

subsection \<open>Decimal numbers\<close>

definition is_digit :: "char \<Rightarrow> bool" where
  "is_digit c \<longleftrightarrow> 48 \<le> char_code c \<and> char_code c \<le> 57"

definition digit_char :: "nat \<Rightarrow> char" where "digit_char d = char_of (48 + d)"
definition digit_val :: "char \<Rightarrow> nat" where "digit_val c = char_code c - 48"

fun show_nat :: "nat \<Rightarrow> string" where
  "show_nat n = (if n < 10 then [digit_char n] else show_nat (n div 10) @ [digit_char (n mod 10)])"

declare show_nat.simps [simp del]

fun parse_digits :: "nat \<Rightarrow> string \<Rightarrow> nat option" where
  "parse_digits acc [] = Some acc"
| "parse_digits acc (c # cs) =
     (if is_digit c then parse_digits (acc * 10 + digit_val c) cs else None)"

text \<open>\<^verbatim>\<open>str::parse\<close> for an unsigned type with the given maximum: an optional plus sign and at least one digit.\<close>

definition parse_uint :: "nat \<Rightarrow> string \<Rightarrow> nat option" where
  "parse_uint maxval s =
     (let digits = (case s of c # d # t \<Rightarrow> if c = CHR ''+'' then d # t else s | _ \<Rightarrow> s)
      in if digits = [] then None
         else case parse_digits 0 digits of
                None \<Rightarrow> None
              | Some n \<Rightarrow> if n \<le> maxval then Some n else None)"

subsection \<open>IPv4 addresses in text\<close>

fun show_ipv4 :: "Ipv4Addr \<Rightarrow> string" where
  "show_ipv4 (Ipv4Addr a b c d) =
     join_char (CHR ''.'') [show_nat (unat a), show_nat (unat b), show_nat (unat c), show_nat (unat d)]"

definition parse_octet :: "string \<Rightarrow> byte option" where
  "parse_octet s =
     (if s = [] \<or> 3 < length s \<or> (2 \<le> length s \<and> hd s = CHR ''0'') then None
      else case parse_digits 0 s of
             None \<Rightarrow> None
           | Some n \<Rightarrow> if n \<le> 255 then Some (of_nat n) else None)"

definition parse_ipv4 :: "string \<Rightarrow> Ipv4Addr option" where
  "parse_ipv4 s =
     (case map parse_octet (split_char (CHR ''.'') s) of
        [Some a, Some b, Some c, Some d] \<Rightarrow> Some (Ipv4Addr a b c d)
      | _ \<Rightarrow> None)"

text \<open>\<^verbatim>\<open>format!("{}:{}", ip, port)\<close>\<close>

definition show_endpoint :: "Ipv4Addr \<Rightarrow> u16 \<Rightarrow> string" where
  "show_endpoint ip port = show_ipv4 ip @ '':'' @ show_nat (unat port)"

subsection \<open>Laws\<close>

lemma char_code_bound: "char_code c < 256"
  by (simp add: of_char_def)

lemma bytes_str_as_bytes [simp]: "bytes_str (as_bytes s) = s"
proof -
  have "char_of (unat (of_nat (char_code c) :: byte)) = c" for c
    using char_code_bound [of c] by (simp add: unat_of_nat_small)
  then show ?thesis by (simp add: bytes_str_def as_bytes_def comp_def)
qed

lemma as_bytes_bytes_str [simp]: "as_bytes (bytes_str b) = b"
proof -
  have "of_nat (char_code (char_of (unat x))) = x" for x :: byte
    using unat_bound [of x] by simp
  then show ?thesis by (simp add: bytes_str_def as_bytes_def comp_def)
qed

lemma as_bytes_inj [simp]: "as_bytes s = as_bytes t \<longleftrightarrow> s = t"
  by (metis bytes_str_as_bytes)

lemma trim_fixed:
  assumes "s = [] \<or> (\<not> is_white (hd s) \<and> \<not> is_white (last s))"
  shows "trim s = s"
proof (cases "s = []")
  case False
  with assms have "dropWhile is_white s = s" "dropWhile is_white (rev s) = rev s"
    by (simp_all add: dropWhile_eq_self_iff hd_rev)
  then show ?thesis by (simp add: trim_def trim_start_def trim_end_def)
qed (simp add: trim_def trim_start_def trim_end_def)

lemma split_char_neq_Nil [simp]: "split_char d s \<noteq> []"
  by (induction s) (simp_all split: list.split)

lemma join_split_char [simp]: "join_char d (split_char d s) = s"
proof (induction s)
  case (Cons c s)
  obtain p ps where p: "split_char d s = p # ps" by (cases "split_char d s") auto
  then show ?case using Cons by (cases ps) auto
qed simp

lemma split_char_no_sep: "d \<notin> set s \<Longrightarrow> split_char d s = [s]"
  by (induction s) auto

lemma split_char_append: "d \<notin> set s \<Longrightarrow> split_char d (s @ d # t) = s # split_char d t"
  by (induction s) auto

lemma split_join_char:
  "ps \<noteq> [] \<Longrightarrow> \<forall>p \<in> set ps. d \<notin> set p \<Longrightarrow> split_char d (join_char d ps) = ps"
  by (induction d ps rule: join_char.induct) (auto simp: split_char_append split_char_no_sep)

lemma str_lines_crlf:
  assumes "CHR 0x0A \<notin> set l" "l = [] \<or> last l \<noteq> CHR 0x0D"
  shows "str_lines (l @ [CHR 0x0D, CHR 0x0A] @ t) = l # str_lines t"
proof -
  have "split_char (CHR 0x0A) (l @ [CHR 0x0D, CHR 0x0A] @ t) = (l @ [CHR 0x0D]) # split_char (CHR 0x0A) t"
    using split_char_append [of "CHR 0x0A" "l @ [CHR 0x0D]" t] assms(1) by simp
  then show ?thesis by (simp add: str_lines_def Let_def)
qed

lemma split_once_append: "d \<notin> set a \<Longrightarrow> split_once d (a @ d # b) = Some (a, b)"
  by (induction a) auto

lemma split_once_SomeD: "split_once d s = Some (a, b) \<Longrightarrow> s = a @ d # b \<and> d \<notin> set a"
  by (induction s arbitrary: a) (auto split: if_splits option.splits prod.splits)

lemma split_once_None: "split_once d s = None \<longleftrightarrow> d \<notin> set s"
  by (induction s) (auto split: option.splits)

lemma rsplit_once_append: "d \<notin> set b \<Longrightarrow> rsplit_once d (a @ d # b) = Some (a, b)"
  by (simp add: rsplit_once_def split_once_append)

lemma digit_char_props:
  assumes "d < 10"
  shows "is_digit (digit_char d)" "digit_val (digit_char d) = d" "char_code (digit_char d) = 48 + d"
  using assms by (simp_all add: is_digit_def digit_char_def digit_val_def)

lemma show_nat_digits: "\<forall>c \<in> set (show_nat n). is_digit c"
proof (induction n rule: show_nat.induct)
  case (1 n)
  then show ?case by (subst show_nat.simps) (auto simp: digit_char_props)
qed

lemma show_nat_neq_Nil [simp]: "show_nat n \<noteq> []"
  by (subst show_nat.simps) simp

lemma parse_digits_append:
  "parse_digits acc (s @ t) = (case parse_digits acc s of None \<Rightarrow> None | Some a \<Rightarrow> parse_digits a t)"
  by (induction acc s rule: parse_digits.induct) simp_all

lemma parse_show_nat [simp]: "parse_digits 0 (show_nat n) = Some n"
proof (induction n rule: show_nat.induct)
  case (1 n)
  then show ?case
    by (subst show_nat.simps) (simp add: parse_digits_append digit_char_props)
qed

lemma digit_not_special: "is_digit c \<Longrightarrow> c \<noteq> CHR ''.'' \<and> c \<noteq> CHR '':'' \<and> c \<noteq> CHR ''+'' \<and> \<not> is_white c"
  by (auto simp: is_digit_def is_white_def)

lemma show_nat_no_white: "\<forall>c \<in> set (show_nat n). \<not> is_white c"
  using show_nat_digits [of n] digit_not_special by blast

lemma trim_show_nat [simp]:
  "trim_end (show_nat n) = show_nat n" "trim (show_nat n) = show_nat n"
  "trim_end (show_nat n @ [CHR 0x0A]) = show_nat n"
proof -
  have "\<not> is_white (hd (rev (show_nat n)))" "\<not> is_white (hd (show_nat n))"
    using show_nat_no_white [of n] by (simp_all add: hd_rev)
  then have e: "dropWhile is_white (rev (show_nat n)) = rev (show_nat n)" "dropWhile is_white (show_nat n) = show_nat n"
    by (simp_all add: dropWhile_eq_self_iff)
  then show "trim_end (show_nat n) = show_nat n" "trim (show_nat n) = show_nat n"
    by (simp_all add: trim_def trim_start_def trim_end_def)
  show "trim_end (show_nat n @ [CHR 0x0A]) = show_nat n" using e by (simp add: trim_end_def is_white_def)
qed

lemma parse_uint_show [simp]: "n \<le> m \<Longrightarrow> parse_uint m (show_nat n) = Some n"
proof -
  assume "n \<le> m"
  have "(case show_nat n of c # d # t \<Rightarrow> if c = CHR ''+'' then d # t else show_nat n | _ \<Rightarrow> show_nat n) = show_nat n"
    using show_nat_digits [of n] digit_not_special by (auto split: list.split)
  with \<open>n \<le> m\<close> show ?thesis by (simp add: parse_uint_def)
qed

lemma parse_uint_bound: "parse_uint m s = Some n \<Longrightarrow> n \<le> m"
  by (auto simp: parse_uint_def Let_def split: option.splits if_splits)

lemma length_show_nat: "0 < k \<Longrightarrow> n < 10 ^ k \<Longrightarrow> length (show_nat n) \<le> k"
proof (induction n arbitrary: k rule: show_nat.induct)
  case (1 n)
  show ?case
  proof (cases "n < 10")
    case True
    then show ?thesis using 1(2) by (subst show_nat.simps) simp
  next
    case False
    then have "k \<noteq> 1" using 1(3) by auto
    with 1(2) obtain j where k: "k = Suc j" "0 < j" by (cases k) auto
    with 1(3) have "n div 10 < 10 ^ j" by (simp add: less_mult_imp_div_less mult.commute)
    with 1(1) [OF False k(2)] False k(1) show ?thesis by (subst show_nat.simps) simp
  qed
qed

lemma hd_show_nat: "hd (show_nat n) = CHR ''0'' \<Longrightarrow> n = 0"
proof (induction n rule: show_nat.induct)
  case (1 n)
  show ?case
  proof (cases "n < 10")
    case True
    with 1(2) have "digit_char n = CHR ''0''" by (simp add: show_nat.simps [of n])
    with True show ?thesis using digit_char_props(3) [of n] by simp
  next
    case False
    with 1(2) have "hd (show_nat (n div 10)) = CHR ''0''" by (simp add: show_nat.simps [of n])
    with 1(1) [OF False] False show ?thesis by simp
  qed
qed

lemma parse_octet_show [simp]: "parse_octet (show_nat (unat b)) = Some b"
proof -
  have b: "unat b < 256" using unat_bound [of b] by simp
  then have l: "length (show_nat (unat b)) \<le> 3" using length_show_nat [of 3 "unat b"] by simp
  have "\<not> (2 \<le> length (show_nat (unat b)) \<and> hd (show_nat (unat b)) = CHR ''0'')"
  proof
    assume h: "2 \<le> length (show_nat (unat b)) \<and> hd (show_nat (unat b)) = CHR ''0''"
    then have "unat b = 0" using hd_show_nat by blast
    with h show False by (simp add: show_nat.simps [of 0])
  qed
  with b l show ?thesis by (simp add: parse_octet_def)
qed

lemma parse_show_ipv4 [simp]: "parse_ipv4 (show_ipv4 a) = Some a"
proof (cases a)
  case (Ipv4Addr w x y z)
  let ?ps = "[show_nat (unat w), show_nat (unat x), show_nat (unat y), show_nat (unat z)]"
  have "split_char (CHR ''.'') (join_char (CHR ''.'') ?ps) = ?ps"
    by (rule split_join_char) (use show_nat_digits digit_not_special in auto)
  then show ?thesis by (simp add: Ipv4Addr parse_ipv4_def)
qed

end
