(* ===== verification/Forwarder.thy ===== *)
theory Forwarder
  imports Session Packets Strings
begin

text \<open>
  The per-session packet forwarder of \<^verbatim>\<open>bonded-server/src/smoltcp_forwarder.rs\<close>: dispatch by
  protocol, the UDP flow table with its pump tasks, ICMP echo forwarding and the
  trackers behind the status page.  The poll thread of the TCP side is in the
  theory \<open>TcpPoll\<close>.

  Times are seconds.  A spawned task is modelled by the state change of one of
  its activations: \<open>forward_udp_packet\<close> is one client packet, \<open>udp_pump\<close> one turn of
  a flow's receive loop.  What the operating system answers (the address a new
  socket is bound to, the datagram a socket receives) is an argument.
\<close>

definition format_elapsed :: "nat \<Rightarrow> nat \<Rightarrow> string" where
  "format_elapsed now v =
     (if v \<le> now then
        let s = now - v
        in if 60 \<le> s then show_nat (s div 60) @ ''m '' @ show_nat (s mod 60) @ ''s ago''
           else show_nat s @ ''s ago''
      else ''just now'')"

subsection \<open>UDP flow tracker\<close>

record UdpFlowKey =
  k_src_ip :: Ipv4Addr
  k_dst_ip :: Ipv4Addr
  k_src_port :: u16
  k_dst_port :: u16

record UdpFlowState =
  uf_connection_id :: u32
  uf_next_sequence :: u64
  uf_identification :: u16
  uf_last_client_at :: nat

record UdpFlowStatus =
  us_session_id :: u64
  us_key :: UdpFlowKey
  us_bound_socket :: string
  us_created_at :: nat
  us_last_client_packet_at :: nat
  us_last_remote_packet_at :: "nat option"
  us_client_to_remote_packets :: u64
  us_remote_to_client_packets :: u64

type_synonym UdpSessionTracker = "(u64 \<times> UdpFlowKey, UdpFlowStatus) hmap"

definition hm_update :: "'k \<Rightarrow> ('v \<Rightarrow> 'v) \<Rightarrow> ('k, 'v) hmap \<Rightarrow> ('k, 'v) hmap" where
  "hm_update k f m = (case map_of m k of None \<Rightarrow> m | Some v \<Rightarrow> hm_insert k (f v) m)"

definition register_flow :: "nat \<Rightarrow> u64 \<Rightarrow> UdpFlowKey \<Rightarrow> string \<Rightarrow> UdpSessionTracker \<Rightarrow> UdpSessionTracker" where
  "register_flow now sid key bound_socket t =
     hm_insert (sid, key)
       \<lparr> us_session_id = sid, us_key = key, us_bound_socket = bound_socket, us_created_at = now,
         us_last_client_packet_at = now, us_last_remote_packet_at = None,
         us_client_to_remote_packets = 0, us_remote_to_client_packets = 0 \<rparr> t"

definition touch_client :: "nat \<Rightarrow> u64 \<Rightarrow> UdpFlowKey \<Rightarrow> UdpSessionTracker \<Rightarrow> UdpSessionTracker" where
  "touch_client now sid key t =
     hm_update (sid, key)
       (\<lambda>e. e\<lparr> us_last_client_packet_at := now,
               us_client_to_remote_packets := saturating_add (us_client_to_remote_packets e) 1 \<rparr>) t"

definition touch_remote :: "nat \<Rightarrow> u64 \<Rightarrow> UdpFlowKey \<Rightarrow> UdpSessionTracker \<Rightarrow> UdpSessionTracker" where
  "touch_remote now sid key t =
     hm_update (sid, key)
       (\<lambda>e. e\<lparr> us_last_remote_packet_at := Some now,
               us_remote_to_client_packets := saturating_add (us_remote_to_client_packets e) 1 \<rparr>) t"

definition remove_flow :: "u64 \<Rightarrow> UdpFlowKey \<Rightarrow> UdpSessionTracker \<Rightarrow> UdpSessionTracker" where
  "remove_flow sid key t = hm_remove (sid, key) t"

definition udp_clear_session :: "u64 \<Rightarrow> UdpSessionTracker \<Rightarrow> UdpSessionTracker" where
  "udp_clear_session sid t = filter (\<lambda>((s, _), _). s \<noteq> sid) t"

record UdpFlowSnapshot =
  usn_session_id :: u64
  usn_client_src :: string
  usn_client_dst :: string
  usn_bound_socket :: string
  usn_created_ago :: string
  usn_last_client_ago :: string
  usn_last_remote_ago :: "string option"
  usn_client_to_remote_packets :: u64
  usn_remote_to_client_packets :: u64

definition udp_row :: "nat \<Rightarrow> UdpFlowStatus \<Rightarrow> UdpFlowSnapshot" where
  "udp_row now e =
     \<lparr> usn_session_id = us_session_id e,
       usn_client_src = show_endpoint (k_src_ip (us_key e)) (k_src_port (us_key e)),
       usn_client_dst = show_endpoint (k_dst_ip (us_key e)) (k_dst_port (us_key e)),
       usn_bound_socket = us_bound_socket e,
       usn_created_ago = format_elapsed now (us_created_at e),
       usn_last_client_ago = format_elapsed now (us_last_client_packet_at e),
       usn_last_remote_ago = map_option (format_elapsed now) (us_last_remote_packet_at e),
       usn_client_to_remote_packets = us_client_to_remote_packets e,
       usn_remote_to_client_packets = us_remote_to_client_packets e \<rparr>"

definition udp_row_before :: "UdpFlowSnapshot \<Rightarrow> UdpFlowSnapshot \<Rightarrow> bool" where
  "udp_row_before a b \<longleftrightarrow> usn_session_id a < usn_session_id b \<or>
     usn_session_id a = usn_session_id b \<and> string_less (usn_client_src a) (usn_client_src b)"

text \<open>A stable insertion sort by the comparator of \<^verbatim>\<open>sort_by\<close>.\<close>

fun insert_by :: "('a \<Rightarrow> 'a \<Rightarrow> bool) \<Rightarrow> 'a \<Rightarrow> 'a list \<Rightarrow> 'a list" where
  "insert_by lt x [] = [x]"
| "insert_by lt x (y # ys) = (if lt y x then y # insert_by lt x ys else x # y # ys)"

definition sort_rows :: "('a \<Rightarrow> 'a \<Rightarrow> bool) \<Rightarrow> 'a list \<Rightarrow> 'a list" where
  "sort_rows lt xs = foldr (insert_by lt) xs []"

definition udp_snapshot :: "nat \<Rightarrow> UdpSessionTracker \<Rightarrow> UdpFlowSnapshot list" where
  "udp_snapshot now t = sort_rows udp_row_before (map (udp_row now \<circ> snd) t)"

subsection \<open>ICMP probe tracker\<close>

record IcmpProbeStatus =
  ip_session_id :: u64
  ip_src_ip :: Ipv4Addr
  ip_dst_ip :: Ipv4Addr
  ip_echo_identifier :: u16
  ip_echo_sequence :: u16
  ip_outcome :: string
  ip_observed_at :: nat

type_synonym IcmpSessionTracker = "IcmpProbeStatus list"

definition MAX_EVENTS :: nat where "MAX_EVENTS = 256"

fun pop_back_to :: "nat \<Rightarrow> 'a list \<Rightarrow> 'a list" where
  "pop_back_to n xs = (if n < length xs then pop_back_to n (butlast xs) else xs)"

declare pop_back_to.simps [simp del]

definition record_probe ::
  "nat \<Rightarrow> u64 \<Rightarrow> Ipv4IcmpEchoPacket \<Rightarrow> string \<Rightarrow> IcmpSessionTracker \<Rightarrow> IcmpSessionTracker" where
  "record_probe now sid pkt outcome t =
     pop_back_to MAX_EVENTS
       (\<lparr> ip_session_id = sid, ip_src_ip = icmp_src_ip pkt, ip_dst_ip = icmp_dst_ip pkt,
          ip_echo_identifier = echo_identifier pkt, ip_echo_sequence = echo_sequence pkt,
          ip_outcome = outcome, ip_observed_at = now \<rparr> # t)"

definition icmp_clear_session :: "u64 \<Rightarrow> IcmpSessionTracker \<Rightarrow> IcmpSessionTracker" where
  "icmp_clear_session sid t = filter (\<lambda>e. ip_session_id e \<noteq> sid) t"

record IcmpProbeSnapshot =
  isn_session_id :: u64
  isn_client_src :: string
  isn_client_dst :: string
  isn_echo_identifier :: u16
  isn_echo_sequence :: u16
  isn_outcome :: string
  isn_observed_ago :: string

definition icmp_snapshot :: "nat \<Rightarrow> IcmpSessionTracker \<Rightarrow> IcmpProbeSnapshot list" where
  "icmp_snapshot now t =
     map (\<lambda>e. \<lparr> isn_session_id = ip_session_id e, isn_client_src = show_ipv4 (ip_src_ip e),
                isn_client_dst = show_ipv4 (ip_dst_ip e), isn_echo_identifier = ip_echo_identifier e,
                isn_echo_sequence = ip_echo_sequence e, isn_outcome = ip_outcome e,
                isn_observed_ago = format_elapsed now (ip_observed_at e) \<rparr>) t"

subsection \<open>The forwarder\<close>

datatype PollCommand =
  InjectPacket bytes
| CreateTcpSocket u16 Ipv4Addr Ipv4Addr u16

record SmoltcpForwarder =
  fw_session_id :: u64
  fw_cmds :: "PollCommand list"
  fw_work :: bool
  fw_udp_tracker :: UdpSessionTracker
  fw_icmp_tracker :: IcmpSessionTracker
  fw_udp_flow_map :: "(UdpFlowKey, UdpFlowState) hmap"
  fw_outbound :: "SessionFrame list"
  fw_udp_sent :: "(UdpFlowKey \<times> bytes) list"

definition forwarder_new :: "u64 \<Rightarrow> SmoltcpForwarder" where
  "forwarder_new sid =
     \<lparr> fw_session_id = sid, fw_cmds = [], fw_work = False, fw_udp_tracker = [], fw_icmp_tracker = [],
       fw_udp_flow_map = [], fw_outbound = [], fw_udp_sent = [] \<rparr>"

definition CMD_CHANNEL_CAPACITY :: nat where "CMD_CHANNEL_CAPACITY = 8192"

text \<open>\<^verbatim>\<open>try_send\<close> on the bounded command channel; a full channel drops the command.\<close>

definition try_send :: "PollCommand \<Rightarrow> SmoltcpForwarder \<Rightarrow> SmoltcpForwarder" where
  "try_send c fw = (if length (fw_cmds fw) < CMD_CHANNEL_CAPACITY then fw\<lparr> fw_cmds := fw_cmds fw @ [c] \<rparr> else fw)"

definition dispatch_tcp :: "SmoltcpForwarder \<Rightarrow> SessionFrame \<Rightarrow> SmoltcpForwarder exec" where
  "dispatch_tcp fw frame =
     (let payload = f_payload frame;
          fw = (case parse_tcp_header payload of
                  Some (src_ip, src_port, dst_ip, dst_port, is_syn) \<Rightarrow>
                    if is_syn then try_send (CreateTcpSocket dst_port dst_ip src_ip src_port) fw else fw
                | None \<Rightarrow> fw)
      in case rewrite_dst_ip_inbound payload of
           Panic \<Rightarrow> Panic
         | Return None \<Rightarrow> Return fw
         | Return (Some rewritten) \<Rightarrow> Return ((try_send (InjectPacket rewritten) fw)\<lparr> fw_work := True \<rparr>))"

definition ensure_flow ::
  "nat \<Rightarrow> string option \<Rightarrow> SmoltcpForwarder \<Rightarrow> UdpFlowKey \<Rightarrow> Ipv4UdpPacket \<Rightarrow> SessionHeader
   \<Rightarrow> (SmoltcpForwarder \<times> UdpFlowState) option" where
  "ensure_flow now bound fw key pkt header =
     (case map_of (fw_udp_flow_map fw) key of
        Some state \<Rightarrow> Some (fw, state)
      | None \<Rightarrow>
          (case bound of
             None \<Rightarrow> None
           | Some local_addr \<Rightarrow>
               let state = \<lparr> uf_connection_id = h_connection_id header,
                             uf_next_sequence = h_sequence header,
                             uf_identification = udp_identification pkt, uf_last_client_at = now \<rparr>
               in Some (fw\<lparr> fw_udp_flow_map := hm_insert key state (fw_udp_flow_map fw),
                            fw_udp_tracker := register_flow now (fw_session_id fw) key local_addr
                                                (fw_udp_tracker fw) \<rparr>, state)))"

definition flow_key :: "Ipv4UdpPacket \<Rightarrow> UdpFlowKey" where
  "flow_key pkt = \<lparr> k_src_ip = udp_src_ip pkt, k_dst_ip = udp_dst_ip pkt,
                    k_src_port = udp_src_port pkt, k_dst_port = udp_dst_port pkt \<rparr>"

definition forward_udp_packet ::
  "nat \<Rightarrow> string option \<Rightarrow> SmoltcpForwarder \<Rightarrow> SessionHeader \<Rightarrow> Ipv4UdpPacket \<Rightarrow> SmoltcpForwarder" where
  "forward_udp_packet now bound fw header pkt =
     (let key = flow_key pkt
      in case ensure_flow now bound fw key pkt header of
           None \<Rightarrow> fw
         | Some (fw, state) \<Rightarrow>
             let state = state\<lparr> uf_identification := udp_identification pkt,
                                uf_last_client_at := now,
                                uf_connection_id := h_connection_id header \<rparr>;
                 state = (if uf_next_sequence state < h_sequence header
                          then state\<lparr> uf_next_sequence := h_sequence header \<rparr> else state)
             in fw\<lparr> fw_udp_flow_map := hm_insert key state (fw_udp_flow_map fw),
                    fw_udp_tracker := touch_client now (fw_session_id fw) key (fw_udp_tracker fw),
                    fw_udp_sent := fw_udp_sent fw @ [(key, udp_payload pkt)] \<rparr>)"

definition dispatch_udp :: "nat \<Rightarrow> string option \<Rightarrow> SmoltcpForwarder \<Rightarrow> SessionFrame \<Rightarrow> SmoltcpForwarder" where
  "dispatch_udp now bound fw frame =
     (case parse_ipv4_udp_packet (f_payload frame) of
        None \<Rightarrow> fw
      | Some pkt \<Rightarrow> forward_udp_packet now bound fw (f_header frame) pkt)"

text \<open>One turn of a flow's receive loop; the second component tells whether the task goes on.\<close>

datatype udp_recv = UdpData bytes | UdpRecvErr | UdpTimeout

definition UDP_IDLE_SECS :: nat where "UDP_IDLE_SECS = 240"

definition udp_flow_exit :: "SmoltcpForwarder \<Rightarrow> UdpFlowKey \<Rightarrow> SmoltcpForwarder" where
  "udp_flow_exit fw key =
     fw\<lparr> fw_udp_flow_map := hm_remove key (fw_udp_flow_map fw),
         fw_udp_tracker := remove_flow (fw_session_id fw) key (fw_udp_tracker fw) \<rparr>"

definition udp_pump ::
  "nat \<Rightarrow> bool \<Rightarrow> udp_recv \<Rightarrow> SmoltcpForwarder \<Rightarrow> UdpFlowKey \<Rightarrow> SmoltcpForwarder \<times> bool" where
  "udp_pump now session_open ev fw key =
     (case map_of (fw_udp_flow_map fw) key of
        None \<Rightarrow> (fw, False)
      | Some g \<Rightarrow>
          if UDP_IDLE_SECS \<le> now - uf_last_client_at g then (udp_flow_exit fw key, False)
          else case ev of
            UdpTimeout \<Rightarrow> (fw, True)
          | UdpRecvErr \<Rightarrow> (udp_flow_exit fw key, False)
          | UdpData d \<Rightarrow>
              if d = [] then (fw, True)
              else
                let h = \<lparr> h_connection_id = uf_connection_id g, h_sequence = uf_next_sequence g, h_flags = 0 \<rparr>;
                    g' = g\<lparr> uf_next_sequence := uf_next_sequence g + 1 \<rparr>;
                    fw = fw\<lparr> fw_udp_flow_map := hm_insert key g' (fw_udp_flow_map fw) \<rparr>
                in case build_ipv4_udp_packet (k_dst_ip key) (k_src_ip key) (k_dst_port key) (k_src_port key)
                          (uf_identification g) d of
                     Inl _ \<Rightarrow> (fw, True)
                   | Inr response \<Rightarrow>
                       let fw = fw\<lparr> fw_udp_tracker := touch_remote now (fw_session_id fw) key (fw_udp_tracker fw) \<rparr>
                       in if session_open
                          then (fw\<lparr> fw_outbound := fw_outbound fw @ [\<lparr> f_header = h, f_payload = response \<rparr>] \<rparr>, True)
                          else (udp_flow_exit fw key, False))"

datatype icmp_io = IcmpSocketError | IcmpReply bytes | IcmpNoReply

datatype IcmpForwardError = IcmpIo | IcmpBuild BuildError

definition forward_icmp ::
  "nat \<Rightarrow> icmp_io \<Rightarrow> Ipv4IcmpEchoPacket \<Rightarrow> SessionHeader \<Rightarrow> IcmpSessionTracker \<Rightarrow> u64
   \<Rightarrow> IcmpSessionTracker \<times> (IcmpForwardError, SessionFrame option) res" where
  "forward_icmp now io pkt header tracker sid =
     (case io of
        IcmpSocketError \<Rightarrow> (tracker, Err IcmpIo)
      | IcmpNoReply \<Rightarrow> (record_probe now sid pkt ''timeout'' tracker, Ok None)
      | IcmpReply buf \<Rightarrow>
          if length buf < 8 \<or> buf ! 0 \<noteq> 0
          then (record_probe now sid pkt ''no-echo-reply'' tracker, Ok None)
          else
            let seg = copy_at 4 (put_u16 (echo_identifier pkt)) buf;
                seg = copy_at 2 [0, 0] seg;
                ck = ones_complement_sum seg;
                seg = copy_at 2 (put_u16 ck) seg
            in case build_ipv4_icmp_packet (icmp_dst_ip pkt) (icmp_src_ip pkt) (icmp_identification pkt) seg of
                 Inl e \<Rightarrow> (tracker, Err (IcmpBuild e))
               | Inr response \<Rightarrow>
                   (record_probe now sid pkt ''reply'' tracker,
                    Ok (Some \<lparr> f_header = header, f_payload = response \<rparr>)))"

definition dispatch_icmp :: "nat \<Rightarrow> icmp_io \<Rightarrow> SmoltcpForwarder \<Rightarrow> SessionFrame \<Rightarrow> SmoltcpForwarder" where
  "dispatch_icmp now io fw frame =
     (case parse_ipv4_icmp_echo_packet (f_payload frame) of
        None \<Rightarrow> fw
      | Some pkt \<Rightarrow>
          let (tracker, r) = forward_icmp now io pkt (f_header frame) (fw_icmp_tracker fw) (fw_session_id fw);
              fw = fw\<lparr> fw_icmp_tracker := tracker \<rparr>
          in case r of
               Inr (Some response) \<Rightarrow> fw\<lparr> fw_outbound := fw_outbound fw @ [response] \<rparr>
             | _ \<Rightarrow> fw)"

definition ingest_packet ::
  "nat \<Rightarrow> string option \<Rightarrow> icmp_io \<Rightarrow> SmoltcpForwarder \<Rightarrow> SessionFrame \<Rightarrow> SmoltcpForwarder exec" where
  "ingest_packet now bound io fw frame =
     (let payload = f_payload frame
      in if length payload < 20 then Return fw
         else
           let protocol = payload ! 9
           in if protocol = 6 then dispatch_tcp fw frame
              else if protocol = 17 then Return (dispatch_udp now bound fw frame)
              else if protocol = 1 then Return (dispatch_icmp now io fw frame)
              else Return fw)"

definition clear_session :: "SmoltcpForwarder \<Rightarrow> SmoltcpForwarder" where
  "clear_session fw =
     fw\<lparr> fw_udp_tracker := udp_clear_session (fw_session_id fw) (fw_udp_tracker fw),
         fw_icmp_tracker := icmp_clear_session (fw_session_id fw) (fw_icmp_tracker fw) \<rparr>"

subsection \<open>Lemmas\<close>

lemma map_of_hm_update [map_laws]:
  "map_of (hm_update k f m) j = (if j = k then map_option f (map_of m k) else map_of m j)"
  by (auto simp: hm_update_def split: option.split)

lemma pop_back_to_take: "pop_back_to n xs = take n xs"
proof (induction n xs rule: pop_back_to.induct)
  case (1 n xs)
  show ?case
  proof (cases "n < length xs")
    case True
    then have "pop_back_to n xs = take n (butlast xs)" using 1 by (subst pop_back_to.simps) simp
    also have "\<dots> = take n xs" using True by (simp add: take_butlast)
    finally show ?thesis .
  qed (simp add: pop_back_to.simps [of n xs])
qed

lemma length_record_probe: "length (record_probe now sid pkt oc t) \<le> 256"
  by (simp add: record_probe_def pop_back_to_take MAX_EVENTS_def)

lemma forward_icmp_tracker:
  "length t \<le> 256 \<Longrightarrow> length (fst (forward_icmp now io pkt h t sid)) \<le> 256"
  by (cases io) (auto simp: forward_icmp_def Let_def length_record_probe split: sum.split)

lemma try_send_other [simp]:
  "fw_icmp_tracker (try_send c fw) = fw_icmp_tracker fw"
  "fw_udp_tracker (try_send c fw) = fw_udp_tracker fw"
  "fw_outbound (try_send c fw) = fw_outbound fw"
  "length (fw_cmds fw) \<le> 8192 \<Longrightarrow> length (fw_cmds (try_send c fw)) \<le> 8192"
  by (simp_all add: try_send_def CMD_CHANNEL_CAPACITY_def)

lemma dispatch_tcp_Return:
  "dispatch_tcp fw frame = Return fw' \<Longrightarrow> fw_icmp_tracker fw' = fw_icmp_tracker fw \<and>
     (length (fw_cmds fw) \<le> 8192 \<longrightarrow> length (fw_cmds fw') \<le> 8192)"
  by (auto simp: dispatch_tcp_def Let_def split: exec.splits option.splits prod.splits if_splits)

lemma dispatch_udp_other [simp]:
  "fw_icmp_tracker (dispatch_udp now b fw frame) = fw_icmp_tracker fw"
  "fw_cmds (dispatch_udp now b fw frame) = fw_cmds fw"
  by (auto simp: dispatch_udp_def forward_udp_packet_def ensure_flow_def Let_def split: option.split)

lemma dispatch_icmp_other [simp]: "fw_cmds (dispatch_icmp now io fw frame) = fw_cmds fw"
  by (auto simp: dispatch_icmp_def Let_def split: option.split prod.split sum.split)

lemma dispatch_icmp_tracker:
  "length (fw_icmp_tracker fw) \<le> 256 \<Longrightarrow> length (fw_icmp_tracker (dispatch_icmp now io fw frame)) \<le> 256"
  using forward_icmp_tracker [of "fw_icmp_tracker fw" now io _ "f_header frame" "fw_session_id fw"]
  by (auto simp: dispatch_icmp_def Let_def case_prod_beta split: option.split sum.split)

lemma rewrite_dst_Panic_iff:
  "rewrite_dst_ip_inbound p = Panic \<longleftrightarrow>
   20 \<le> length p \<and> drop_bit 4 (p ! 0) = 4 \<and> length p < unat (p ! 0 AND 0x0f) * 4"
proof (cases "length p < 20 \<or> drop_bit 4 (p ! 0) \<noteq> 4")
  case True
  then show ?thesis by (auto simp: rewrite_dst_ip_inbound_def)
next
  case False
  let ?p1 = "copy_at 16 SMOLTCP_IP_ARRAY p"
  have ip: "length SMOLTCP_IP_ARRAY = 4" by (simp add: SMOLTCP_IP_ARRAY_def)
  with False have l: "length (copy_at 10 [0, 0] ?p1) = length p" by simp
  have z: "?p1 ! 0 = p ! 0" using False ip by (subst copy_at_nth) auto
  have nc: "\<not> (length p < 20 \<or> drop_bit 4 (p ! 0) \<noteq> 4)" using False by blast
  show ?thesis
    unfolding rewrite_dst_ip_inbound_def Let_def if_not_P [OF nc] l z using False by simp
qed

subsection \<open>Reachable forwarder states\<close>

text \<open>
  The flow table and the tracker are changed by client packets and by the pump
  tasks; the poll thread empties the command channel.
\<close>

inductive fw_reach :: "u64 \<Rightarrow> SmoltcpForwarder \<Rightarrow> bool" for sid :: u64 where
  new: "fw_reach sid (forwarder_new sid)"
| ingest: "fw_reach sid fw \<Longrightarrow> ingest_packet now bound io fw frame = Return fw' \<Longrightarrow> fw_reach sid fw'"
| pump: "fw_reach sid fw \<Longrightarrow> fw_reach sid (fst (udp_pump now op ev fw key))"
| drained: "fw_reach sid fw \<Longrightarrow> fw_reach sid (fw\<lparr> fw_cmds := [], fw_work := w \<rparr>)"

definition fw_inv :: "u64 \<Rightarrow> SmoltcpForwarder \<Rightarrow> bool" where
  "fw_inv sid fw \<longleftrightarrow> fw_session_id fw = sid \<and> length (fw_icmp_tracker fw) \<le> 256 \<and> length (fw_cmds fw) \<le> 8192 \<and>
     dom (map_of (fw_udp_tracker fw)) = {sid} \<times> dom (map_of (fw_udp_flow_map fw))"

lemma dom_hm_update [simp]: "dom (map_of (hm_update k f m)) = dom (map_of m)"
  by (auto simp: map_of_hm_update dom_def split: if_splits)

lemma fw_inv_new: "fw_inv sid (forwarder_new sid)"
  by (simp add: fw_inv_def forwarder_new_def)

lemma forward_udp_inv: "fw_inv sid fw \<Longrightarrow> fw_inv sid (forward_udp_packet now bound fw h pkt)"
proof (cases "ensure_flow now bound fw (flow_key pkt) pkt h")
  case None
  then show "fw_inv sid fw \<Longrightarrow> ?thesis" by (simp add: forward_udp_packet_def)
next
  case (Some r)
  assume inv: "fw_inv sid fw"
  obtain fw0 st where r: "r = (fw0, st)" by (cases r)
  have fw0: "fw_inv sid fw0" "flow_key pkt \<in> dom (map_of (fw_udp_flow_map fw0))"
    using Some inv
    by (cases "map_of (fw_udp_flow_map fw) (flow_key pkt)"; cases bound;
        clarsimp simp: r ensure_flow_def fw_inv_def register_flow_def Let_def domI)+
  from insert_absorb [OF fw0(2)] fw0(1) show ?thesis
    by (simp add: forward_udp_packet_def Some r Let_def fw_inv_def touch_client_def)
qed

lemma udp_exit_inv: "fw_inv sid fw \<Longrightarrow> fw_inv sid (udp_flow_exit fw key)"
  by (auto simp: udp_flow_exit_def fw_inv_def remove_flow_def)

lemma udp_pump_inv:
  assumes "fw_inv sid fw"
  shows "fw_inv sid (fst (udp_pump now op ev fw key))"
proof (cases "map_of (fw_udp_flow_map fw) key")
  case None
  with assms show ?thesis by (simp add: udp_pump_def)
next
  case (Some g)
  let ?fw1 = "fw\<lparr> fw_udp_flow_map := hm_insert key (g\<lparr> uf_next_sequence := uf_next_sequence g + 1 \<rparr>) (fw_udp_flow_map fw) \<rparr>"
  let ?fw2 = "?fw1\<lparr> fw_udp_tracker := touch_remote now (fw_session_id ?fw1) key (fw_udp_tracker ?fw1) \<rparr>"
  have "insert key (dom (map_of (fw_udp_flow_map fw))) = dom (map_of (fw_udp_flow_map fw))"
    using Some by auto
  then have i1: "fw_inv sid ?fw1" using assms by (simp add: fw_inv_def)
  have i2: "fw_inv sid ?fw2" using i1 by (simp add: fw_inv_def touch_remote_def)
  have i3: "fw_inv sid (?fw2\<lparr> fw_outbound := out \<rparr>)" for out using i2 by (clarsimp simp: fw_inv_def)
  have "fst (udp_pump now op ev fw key) \<in>
      {fw, udp_flow_exit fw key, ?fw1, udp_flow_exit ?fw2 key} \<union> range (\<lambda>out. ?fw2\<lparr> fw_outbound := out \<rparr>)"
    by (auto simp: udp_pump_def Some Let_def split: udp_recv.split sum.split)
  then show ?thesis using assms i1 i3 udp_exit_inv [OF assms] udp_exit_inv [OF i2] by auto
qed

lemma ingest_inv:
  assumes "fw_inv sid fw" "ingest_packet now bound io fw frame = Return fw'"
  shows "fw_inv sid fw'"
proof -
  have tcp: "fw_inv sid fw1" if "dispatch_tcp fw frame = Return fw1" for fw1
  proof -
    have "fw_udp_tracker fw1 = fw_udp_tracker fw \<and> fw_udp_flow_map fw1 = fw_udp_flow_map fw \<and>
        fw_session_id fw1 = fw_session_id fw"
      using that by (auto simp: dispatch_tcp_def try_send_def Let_def split: exec.splits option.splits prod.splits if_splits)
    with dispatch_tcp_Return [OF that] assms(1) show ?thesis by (simp add: fw_inv_def)
  qed
  have udp: "fw_inv sid (dispatch_udp now bound fw frame)"
    using assms(1) by (simp add: dispatch_udp_def forward_udp_inv split: option.split)
  have "fw_udp_tracker (dispatch_icmp now io fw frame) = fw_udp_tracker fw \<and>
      fw_udp_flow_map (dispatch_icmp now io fw frame) = fw_udp_flow_map fw \<and>
      fw_session_id (dispatch_icmp now io fw frame) = fw_session_id fw"
    by (auto simp: dispatch_icmp_def Let_def split: option.split prod.split sum.split)
  then have icmp: "fw_inv sid (dispatch_icmp now io fw frame)"
    using assms(1) dispatch_icmp_tracker [of fw] by (simp add: fw_inv_def)
  show ?thesis
    using assms tcp udp icmp by (auto simp: ingest_packet_def Let_def split: if_splits)
qed

lemma fw_reach_inv: "fw_reach sid fw \<Longrightarrow> fw_inv sid fw"
proof (induction rule: fw_reach.induct)
  case (drained fw w)
  then show ?case by (simp add: fw_inv_def)
qed (simp_all add: fw_inv_new udp_pump_inv, blast intro: ingest_inv)

subsection \<open>Properties\<close>

text \<open>
  C12.  Dispatching a client packet panics exactly when it is a TCP packet over IPv4
  whose header-length field announces more bytes than the packet has: the length
  check of twenty bytes does not cover the slice of up to sixty.
\<close>

theorem ingest_panics_iff:
  "ingest_packet now bound io fw frame = Panic \<longleftrightarrow>
   (let p = f_payload frame in
    20 \<le> length p \<and> p ! 9 = 6 \<and> drop_bit 4 (p ! 0) = 4 \<and> length p < unat (p ! 0 AND 0x0f) * 4)"
  using rewrite_dst_Panic_iff [of "f_payload frame"]
  by (auto simp: ingest_packet_def dispatch_tcp_def Let_def split: exec.split option.split)

text \<open>
  C13.  A UDP answer comes back to the client that asked: after a client datagram has
  been forwarded, data the remote host sends within the idle time becomes a frame
  on the client's current connection, with a sequence not below the request's,
  whose packet carries that data from the remote endpoint to the client endpoint
  with the request's identification.
\<close>

theorem udp_reply_to_client:
  assumes "fw1 = forward_udp_packet now (Some bound) fw header pkt"
    and "d \<noteq> []" "length d \<le> 65507" "now' < now + 240"
  shows "\<exists>fw2 frame. udp_pump now' True (UdpData d) fw1 (flow_key pkt) = (fw2, True) \<and>
    fw_outbound fw2 = fw_outbound fw1 @ [frame] \<and>
    h_connection_id (f_header frame) = h_connection_id header \<and>
    h_sequence header \<le> h_sequence (f_header frame) \<and>
    parse_ipv4_udp_packet (f_payload frame) =
      Some \<lparr> udp_src_ip = udp_dst_ip pkt, udp_dst_ip = udp_src_ip pkt, udp_src_port = udp_dst_port pkt,
             udp_dst_port = udp_src_port pkt, udp_payload = d, udp_identification = udp_identification pkt \<rparr>"
proof -
  let ?key = "flow_key pkt"
  obtain fw0 st where ens: "ensure_flow now (Some bound) fw ?key pkt header = Some (fw0, st)"
    by (cases "map_of (fw_udp_flow_map fw) ?key") (auto simp: ensure_flow_def Let_def)
  obtain g where g: "map_of (fw_udp_flow_map fw1) ?key = Some g"
    "uf_connection_id g = h_connection_id header" "h_sequence header \<le> uf_next_sequence g"
    "uf_identification g = udp_identification pkt" "uf_last_client_at g = now"
    unfolding assms(1) by (auto simp: forward_udp_packet_def ens Let_def not_less)
  obtain resp where resp: "build_ipv4_udp_packet (udp_dst_ip pkt) (udp_src_ip pkt) (udp_dst_port pkt) (udp_src_port pkt)
      (udp_identification pkt) d = Inr resp"
    using build_ipv4_udp_packet_layout [OF assms(3)] by blast
  have "parse_ipv4_udp_packet resp = Some \<lparr> udp_src_ip = udp_dst_ip pkt, udp_dst_ip = udp_src_ip pkt,
      udp_src_port = udp_dst_port pkt, udp_dst_port = udp_src_port pkt, udp_payload = d,
      udp_identification = udp_identification pkt \<rparr>"
    using parse_built_udp [OF assms(3) resp] .
  with g assms(2,4) resp show ?thesis
    by (simp add: udp_pump_def UDP_IDLE_SECS_def Let_def flow_key_def)
qed

theorem udp_reply_to_client_witness:
  "let pkt = \<lparr> udp_src_ip = Ipv4Addr 10 0 0 2, udp_dst_ip = Ipv4Addr 8 8 8 8, udp_src_port = 5000,
               udp_dst_port = 53, udp_payload = [1], udp_identification = 7 \<rparr>;
       h = \<lparr> h_connection_id = 1, h_sequence = 4, h_flags = 0 \<rparr>;
       fw1 = forward_udp_packet 100 (Some ''0.0.0.0:4000'') (forwarder_new 3) h pkt
   in \<exists>fw2 frame. udp_pump 101 True (UdpData [42]) fw1 (flow_key pkt) = (fw2, True) \<and>
        fw_outbound fw2 = [frame] \<and> h_connection_id (f_header frame) = 1"
proof -
  let ?pkt = "\<lparr> udp_src_ip = Ipv4Addr 10 0 0 2, udp_dst_ip = Ipv4Addr 8 8 8 8, udp_src_port = 5000,
               udp_dst_port = 53, udp_payload = [1], udp_identification = 7 \<rparr>"
  let ?h = "\<lparr> h_connection_id = 1, h_sequence = 4, h_flags = 0 \<rparr>"
  let ?fw1 = "forward_udp_packet 100 (Some ''0.0.0.0:4000'') (forwarder_new 3) ?h ?pkt"
  have "fw_outbound ?fw1 = []"
    by (simp add: forward_udp_packet_def ensure_flow_def forwarder_new_def Let_def)
  with udp_reply_to_client [of ?fw1 100 "''0.0.0.0:4000''" "forwarder_new 3" ?h ?pkt "[42]" 101]
  show ?thesis unfolding Let_def by auto
qed



end
