(* ===== verification/TcpPoll.thy ===== *)
theory TcpPoll
  imports Forwarder
begin

text \<open>
  The poll thread of \<^verbatim>\<open>smoltcp_forwarder.rs\<close> (\<^verbatim>\<open>smoltcp_poll_thread\<close>), one definition
  per phase of its loop body.  The TCP/IP stack itself (crate \<^verbatim>\<open>smoltcp\<close>) is the
  parameter \<open>st\<close>, a record of the operations the thread calls on the socket set
  of type \<open>'sk\<close>.  The bridge tasks to the real servers appear through their
  channels: bytes handed to a bridge are appended to \<open>to_bridge\<close>, bytes received
  from it are consumed from \<open>from_bridge\<close>; \<open>a_channel\<close> is the identity of the channel
  pair, the position of its bridge task in \<open>ps_bridges\<close>.
\<close>

type_synonym SocketHandle = nat

record 'sk tcp_stack =
  st_listen :: "'sk \<Rightarrow> u16 \<Rightarrow> ('sk \<times> SocketHandle) option"
  st_poll :: "'sk \<Rightarrow> bytes list \<Rightarrow> 'sk \<times> bytes list \<times> bytes list"
  st_established :: "'sk \<Rightarrow> SocketHandle \<Rightarrow> bool"
  st_can_recv :: "'sk \<Rightarrow> SocketHandle \<Rightarrow> bool"
  st_recv :: "'sk \<Rightarrow> SocketHandle \<Rightarrow> 'sk \<times> bytes"
  st_can_send :: "'sk \<Rightarrow> SocketHandle \<Rightarrow> bool"
  st_send_slice :: "'sk \<Rightarrow> SocketHandle \<Rightarrow> bytes \<Rightarrow> 'sk \<times> nat option"
  st_is_active :: "'sk \<Rightarrow> SocketHandle \<Rightarrow> bool"
  st_is_listen :: "'sk \<Rightarrow> SocketHandle \<Rightarrow> bool"
  st_remove :: "'sk \<Rightarrow> SocketHandle \<Rightarrow> 'sk"

subsection \<open>State\<close>

record PendingTcpConn =
  p_handle :: SocketHandle
  p_original_dst_ip :: Ipv4Addr
  p_dst_port :: u16
  p_client_src_ip :: Ipv4Addr
  p_client_src_port :: u16

record PendingBridgeBytes =
  pb_bytes :: bytes
  pb_offset :: nat

definition pb_remaining :: "PendingBridgeBytes \<Rightarrow> bytes" where
  "pb_remaining p = drop (pb_offset p) (pb_bytes p)"

definition pb_is_complete :: "PendingBridgeBytes \<Rightarrow> bool" where
  "pb_is_complete p \<longleftrightarrow> length (pb_bytes p) \<le> pb_offset p"

record ActiveTcpConn =
  a_original_dst_ip :: Ipv4Addr
  a_dst_port :: u16
  a_client_src_ip :: Ipv4Addr
  a_client_src_port :: u16
  a_channel :: nat
  to_bridge :: "bytes list"
  from_bridge :: "bytes list"
  pending_from_bridge :: "PendingBridgeBytes option"

record TcpFlowRecord =
  tf_conn_id :: u32
  tf_session_id :: u64
  tf_src_ip :: Ipv4Addr
  tf_src_port :: u16
  tf_dst_ip :: Ipv4Addr
  tf_dst_port :: u16
  tf_created_at :: nat
  tf_last_activity_at :: nat
  tf_client_to_remote :: u64
  tf_remote_to_client :: u64
  tf_bridge_read_chunks :: u64
  tf_bridge_read_bytes :: u64
  tf_bridge_to_smoltcp_chunks :: u64
  tf_bridge_to_smoltcp_bytes :: u64

record 'sk poll_state =
  ps_session_id :: u64
  ps_sockets :: 'sk
  ps_rx :: "bytes list"
  ps_tx :: "bytes list"
  ps_pending :: "PendingTcpConn list"
  ps_active :: "(SocketHandle, ActiveTcpConn) hmap"
  ps_promoted :: "SocketHandle list"
  ps_next_conn_id :: u32
  ps_global_seq :: u64
  ps_inbound_rst :: u64
  ps_outbound_rst :: u64
  ps_outbound_rst_unmatched :: u64
  ps_ambiguous :: u64
  ps_last_rst_bucket :: u64
  ps_flows :: "(SocketHandle, TcpFlowRecord) hmap"
  ps_out :: "SessionFrame list"
  ps_bridges :: "(u32 \<times> Ipv4Addr \<times> u16) list"

definition poll_init :: "u64 \<Rightarrow> 'sk \<Rightarrow> 'sk poll_state" where
  "poll_init sid sk =
     \<lparr> ps_session_id = sid, ps_sockets = sk, ps_rx = [], ps_tx = [], ps_pending = [], ps_active = [],
       ps_promoted = [], ps_next_conn_id = 1, ps_global_seq = 0, ps_inbound_rst = 0, ps_outbound_rst = 0,
       ps_outbound_rst_unmatched = 0, ps_ambiguous = 0, ps_last_rst_bucket = 0, ps_flows = [],
       ps_out = [], ps_bridges = [] \<rparr>"

subsection \<open>Draining the command channel\<close>

definition has_rst :: "byte \<Rightarrow> bool" where "has_rst flags \<longleftrightarrow> flags AND 0x04 \<noteq> 0"

fun run_command :: "'sk tcp_stack \<Rightarrow> 'sk poll_state \<Rightarrow> PollCommand \<Rightarrow> 'sk poll_state" where
  "run_command st s (InjectPacket pkt) =
     (let s = (case parse_ipv4_tcp_tuple_flags pkt of
                 Some (_, _, _, _, flags) \<Rightarrow>
                   if has_rst flags then s\<lparr> ps_inbound_rst := saturating_add (ps_inbound_rst s) 1 \<rparr> else s
               | None \<Rightarrow> s)
      in s\<lparr> ps_rx := ps_rx s @ [pkt] \<rparr>)"
| "run_command st s (CreateTcpSocket listen_port original_dst_ip client_src_ip client_src_port) =
     (case st_listen st (ps_sockets s) listen_port of
        None \<Rightarrow> s
      | Some (sk, h) \<Rightarrow>
          s\<lparr> ps_sockets := sk,
             ps_pending := ps_pending s @
               [\<lparr> p_handle = h, p_original_dst_ip = original_dst_ip, p_dst_port = listen_port,
                  p_client_src_ip = client_src_ip, p_client_src_port = client_src_port \<rparr>] \<rparr>)"

definition drain_commands :: "'sk tcp_stack \<Rightarrow> 'sk poll_state \<Rightarrow> PollCommand list \<Rightarrow> 'sk poll_state" where
  "drain_commands st s cmds = foldl (run_command st) s cmds"

definition poll_stack :: "'sk tcp_stack \<Rightarrow> 'sk poll_state \<Rightarrow> 'sk poll_state" where
  "poll_stack st s =
     (let (sk, rx, tx) = st_poll st (ps_sockets s) (ps_rx s)
      in s\<lparr> ps_sockets := sk, ps_rx := rx, ps_tx := ps_tx s @ tx \<rparr>)"

subsection \<open>Emitting packets to the client\<close>

record conn_tuple =
  ct_client_ip :: Ipv4Addr
  ct_client_port :: u16
  ct_server_port :: u16
  ct_original :: Ipv4Addr

definition active_tuple :: "ActiveTcpConn \<Rightarrow> conn_tuple" where
  "active_tuple c = \<lparr> ct_client_ip = a_client_src_ip c, ct_client_port = a_client_src_port c,
                      ct_server_port = a_dst_port c, ct_original = a_original_dst_ip c \<rparr>"

definition pending_tuple :: "PendingTcpConn \<Rightarrow> conn_tuple" where
  "pending_tuple p = \<lparr> ct_client_ip = p_client_src_ip p, ct_client_port = p_client_src_port p,
                       ct_server_port = p_dst_port p, ct_original = p_original_dst_ip p \<rparr>"

text \<open>
  The two search loops: the original destination of the matching connections, and
  whether two matching connections disagree about it.
\<close>

fun find_original ::
  "Ipv4Addr \<Rightarrow> u16 \<Rightarrow> u16 \<Rightarrow> Ipv4Addr option \<Rightarrow> conn_tuple list \<Rightarrow> Ipv4Addr option \<times> bool" where
  "find_original ip cport sport found [] = (found, False)"
| "find_original ip cport sport found (c # cs) =
     (if ct_client_ip c = ip \<and> ct_client_port c = cport \<and> ct_server_port c = sport
      then case found of
             None \<Rightarrow> find_original ip cport sport (Some (ct_original c)) cs
           | Some existing \<Rightarrow>
               if existing = ct_original c then find_original ip cport sport found cs
               else (found, True)
      else find_original ip cport sport found cs)"

definition count_outbound_rst :: "bytes \<Rightarrow> 'sk poll_state \<Rightarrow> 'sk poll_state" where
  "count_outbound_rst pkt s =
     (case parse_ipv4_tcp_tuple_flags pkt of
        Some (_, _, _, _, flags) \<Rightarrow>
          if has_rst flags then s\<lparr> ps_outbound_rst := saturating_add (ps_outbound_rst s) 1 \<rparr> else s
      | None \<Rightarrow> s)"

definition count_unmatched_rst :: "bytes \<Rightarrow> 'sk poll_state \<Rightarrow> 'sk poll_state" where
  "count_unmatched_rst pkt s =
     (case parse_ipv4_tcp_tuple_flags pkt of
        Some (_, _, _, _, flags) \<Rightarrow>
          if has_rst flags
          then s\<lparr> ps_outbound_rst := saturating_add (ps_outbound_rst s) 1,
                  ps_outbound_rst_unmatched := saturating_add (ps_outbound_rst_unmatched s) 1 \<rparr>
          else s
      | None \<Rightarrow> s)"

definition send_to_client :: "bytes \<Rightarrow> Ipv4Addr \<Rightarrow> 'sk poll_state \<Rightarrow> 'sk poll_state exec" where
  "send_to_client pkt original_src s =
     (case rewrite_src_ip_outbound pkt original_src of
        Panic \<Rightarrow> Panic
      | Return pkt' \<Rightarrow>
          Return (s\<lparr> ps_out := ps_out s @
                      [\<lparr> f_header = \<lparr> h_connection_id = 0, h_sequence = ps_global_seq s, h_flags = 0 \<rparr>,
                         f_payload = pkt' \<rparr>],
                     ps_global_seq := ps_global_seq s + 1 \<rparr>))"

definition emit_packet :: "'sk poll_state \<Rightarrow> bytes \<Rightarrow> 'sk poll_state exec" where
  "emit_packet s pkt =
     (if length pkt < 20 \<or> drop_bit 4 (pkt ! 0) \<noteq> 4 then Return s
      else if length pkt < 22 then Return s
      else if length pkt < 24 then Return s
      else
        let smoltcp_dst_ip = addr_at 16 pkt;
            smoltcp_src_port = u16_at 20 pkt;
            smoltcp_dst_port = u16_at 22 pkt
        in case find_original smoltcp_dst_ip smoltcp_dst_port smoltcp_src_port None
                  (map (active_tuple \<circ> snd) (ps_active s)) of
             (_, True) \<Rightarrow> Return (s\<lparr> ps_ambiguous := saturating_add (ps_ambiguous s) 1 \<rparr>)
           | (Some original_src, False) \<Rightarrow> send_to_client pkt original_src (count_outbound_rst pkt s)
           | (None, False) \<Rightarrow>
               (case find_original smoltcp_dst_ip smoltcp_dst_port smoltcp_src_port None
                       (map pending_tuple (ps_pending s)) of
                  (_, True) \<Rightarrow> Return (s\<lparr> ps_ambiguous := saturating_add (ps_ambiguous s) 1 \<rparr>)
                | (None, False) \<Rightarrow> Return (count_unmatched_rst pkt s)
                | (Some original_src, False) \<Rightarrow> send_to_client pkt original_src (count_outbound_rst pkt s)))"

fun drain_tx :: "'sk poll_state \<Rightarrow> bytes list \<Rightarrow> 'sk poll_state exec" where
  "drain_tx s [] = Return (s\<lparr> ps_tx := [] \<rparr>)"
| "drain_tx s (pkt # pkts) = (case emit_packet s pkt of Panic \<Rightarrow> Panic | Return s' \<Rightarrow> drain_tx s' pkts)"

subsection \<open>Promoting established connections\<close>

definition remove_at :: "nat \<Rightarrow> 'a list \<Rightarrow> 'a list" where
  "remove_at i xs = take i xs @ drop (Suc i) xs"

definition tuple_conflict :: "'sk poll_state \<Rightarrow> PendingTcpConn \<Rightarrow> bool" where
  "tuple_conflict s p \<longleftrightarrow>
     list_ex (\<lambda>c. a_client_src_ip c = p_client_src_ip p \<and> a_client_src_port c = p_client_src_port p \<and>
                  a_dst_port c = p_dst_port p \<and> a_original_dst_ip c \<noteq> p_original_dst_ip p)
       (map snd (ps_active s))"

definition promote_one :: "'sk tcp_stack \<Rightarrow> nat \<Rightarrow> 'sk poll_state \<Rightarrow> nat \<Rightarrow> 'sk poll_state" where
  "promote_one st now s idx =
     (let p = ps_pending s ! idx;
          s = s\<lparr> ps_pending := remove_at idx (ps_pending s) \<rparr>
      in if tuple_conflict s p
         then s\<lparr> ps_ambiguous := saturating_add (ps_ambiguous s) 1,
                 ps_sockets := st_remove st (ps_sockets s) (p_handle p),
                 ps_promoted := removeAll (p_handle p) (ps_promoted s) \<rparr>
         else
           let conn_id = ps_next_conn_id s
           in s\<lparr> ps_promoted := List.insert (p_handle p) (ps_promoted s),
                 ps_next_conn_id := max (conn_id + 1) 1,
                 ps_bridges := ps_bridges s @ [(conn_id, p_original_dst_ip p, p_dst_port p)],
                 ps_flows := hm_insert (p_handle p)
                   \<lparr> tf_conn_id = conn_id, tf_session_id = ps_session_id s,
                     tf_src_ip = p_client_src_ip p, tf_src_port = p_client_src_port p,
                     tf_dst_ip = p_original_dst_ip p, tf_dst_port = p_dst_port p,
                     tf_created_at = now, tf_last_activity_at = now,
                     tf_client_to_remote = 0, tf_remote_to_client = 0,
                     tf_bridge_read_chunks = 0, tf_bridge_read_bytes = 0,
                     tf_bridge_to_smoltcp_chunks = 0, tf_bridge_to_smoltcp_bytes = 0 \<rparr> (ps_flows s),
                 ps_active := hm_insert (p_handle p)
                   \<lparr> a_original_dst_ip = p_original_dst_ip p, a_dst_port = p_dst_port p,
                     a_client_src_ip = p_client_src_ip p, a_client_src_port = p_client_src_port p,
                     a_channel = length (ps_bridges s),
                     to_bridge = [], from_bridge = [], pending_from_bridge = None \<rparr> (ps_active s) \<rparr>)"

definition newly_established :: "'sk tcp_stack \<Rightarrow> 'sk poll_state \<Rightarrow> nat list" where
  "newly_established st s =
     filter (\<lambda>idx. let p = ps_pending s ! idx
                   in p_handle p \<notin> set (ps_promoted s) \<and> st_established st (ps_sockets s) (p_handle p))
       [0..<length (ps_pending s)]"

definition promote_established :: "'sk tcp_stack \<Rightarrow> nat \<Rightarrow> 'sk poll_state \<Rightarrow> 'sk poll_state" where
  "promote_established st now s = foldl (promote_one st now) s (rev (newly_established st s))"

subsection \<open>Servicing active connections\<close>

definition touch_flow :: "SocketHandle \<Rightarrow> (TcpFlowRecord \<Rightarrow> TcpFlowRecord) \<Rightarrow> 'sk poll_state \<Rightarrow> 'sk poll_state" where
  "touch_flow h f s = s\<lparr> ps_flows := hm_update h f (ps_flows s) \<rparr>"

definition bridge_load :: "ActiveTcpConn \<Rightarrow> nat" where
  "bridge_load c = sum_list (map (\<lambda>b. Suc (length b)) (from_bridge c)) +
     (case pending_from_bridge c of None \<Rightarrow> 0 | Some p \<Rightarrow> Suc (length (pb_remaining p)))"

text \<open>Client data goes to the bridge of the connection.\<close>

definition recv_from_client ::
  "'sk tcp_stack \<Rightarrow> nat \<Rightarrow> SocketHandle \<Rightarrow> 'sk poll_state \<Rightarrow> ActiveTcpConn \<Rightarrow> 'sk poll_state \<times> ActiveTcpConn" where
  "recv_from_client st now h s conn =
     (if st_can_recv st (ps_sockets s) h then
        let (sk, data) = st_recv st (ps_sockets s) h;
            s = s\<lparr> ps_sockets := sk \<rparr>
        in if data \<noteq> [] then
             (touch_flow h (\<lambda>r. r\<lparr> tf_client_to_remote := saturating_add (tf_client_to_remote r) 1,
                                   tf_last_activity_at := now \<rparr>) s,
              conn\<lparr> to_bridge := to_bridge conn @ [data] \<rparr>)
           else (s, conn)
      else (s, conn))"

text \<open>
  The \<^verbatim>\<open>while socket.can_send()\<close> loop.  \<open>load_chunk\<close> is its first half: it makes sure that
  a chunk is pending, or tells the loop to stop or to start over.  The last component of
  \<open>send_to_socket\<close> collects what the socket accepted.
\<close>

datatype 'sk loaded =
    Load_break
  | Load_continue "'sk poll_state" ActiveTcpConn
  | Load_ready "'sk poll_state" ActiveTcpConn PendingBridgeBytes

definition load_chunk :: "nat \<Rightarrow> SocketHandle \<Rightarrow> 'sk poll_state \<Rightarrow> ActiveTcpConn \<Rightarrow> 'sk loaded" where
  "load_chunk now h s conn =
     (case pending_from_bridge conn of
        Some p \<Rightarrow>
          if pb_is_complete p then Load_continue s (conn\<lparr> pending_from_bridge := None \<rparr>)
          else Load_ready s conn p
      | None \<Rightarrow>
          (case from_bridge conn of
             [] \<Rightarrow> Load_break
           | b # bs \<Rightarrow>
               if b = [] then Load_continue s (conn\<lparr> from_bridge := bs \<rparr>)
               else
                 let p = \<lparr> pb_bytes = b, pb_offset = 0 \<rparr>
                 in Load_ready
                      (touch_flow h (\<lambda>r. r\<lparr> tf_remote_to_client := saturating_add (tf_remote_to_client r) 1,
                         tf_bridge_to_smoltcp_chunks := saturating_add (tf_bridge_to_smoltcp_chunks r) 1,
                         tf_last_activity_at := now \<rparr>) s)
                      (conn\<lparr> from_bridge := bs, pending_from_bridge := Some p \<rparr>) p))"

definition sent_chunk ::
  "nat \<Rightarrow> SocketHandle \<Rightarrow> nat \<Rightarrow> PendingBridgeBytes \<Rightarrow> ActiveTcpConn \<Rightarrow> ActiveTcpConn" where
  "sent_chunk now h n p conn =
     (let p = p\<lparr> pb_offset := pb_offset p + n \<rparr>
      in conn\<lparr> pending_from_bridge := (if pb_is_complete p then None else Some p) \<rparr>)"

definition note_sent :: "nat \<Rightarrow> SocketHandle \<Rightarrow> nat \<Rightarrow> 'sk poll_state \<Rightarrow> 'sk poll_state" where
  "note_sent now h n s =
     touch_flow h (\<lambda>r. r\<lparr> tf_bridge_to_smoltcp_bytes :=
                            saturating_add (tf_bridge_to_smoltcp_bytes r) (of_nat n),
                          tf_last_activity_at := now \<rparr>) s"

lemma load_chunk_load:
  "load_chunk now h s conn = Load_continue s' conn' \<Longrightarrow> bridge_load conn' < bridge_load conn"
  "load_chunk now h s conn = Load_ready s' conn' p \<Longrightarrow>
     bridge_load conn' \<le> bridge_load conn \<and> pending_from_bridge conn' = Some p \<and> \<not> pb_is_complete p"
  by (auto simp: load_chunk_def bridge_load_def pb_remaining_def pb_is_complete_def Let_def
      split: option.splits list.splits if_splits)

lemma sent_chunk_load:
  assumes "pending_from_bridge conn = Some p" "\<not> pb_is_complete p" "0 < n"
  shows "bridge_load (sent_chunk now h n p conn) < bridge_load conn"
  using assms by (auto simp: sent_chunk_def bridge_load_def pb_remaining_def pb_is_complete_def Let_def)

function send_to_socket ::
  "'sk tcp_stack \<Rightarrow> nat \<Rightarrow> SocketHandle \<Rightarrow> 'sk poll_state \<Rightarrow> ActiveTcpConn
   \<Rightarrow> 'sk poll_state \<times> ActiveTcpConn \<times> bytes" where
  "send_to_socket st now h s conn =
     (if \<not> st_can_send st (ps_sockets s) h then (s, conn, [])
      else case load_chunk now h s conn of
        Load_break \<Rightarrow> (s, conn, [])
      | Load_continue s1 conn1 \<Rightarrow> send_to_socket st now h s1 conn1
      | Load_ready s1 conn1 p \<Rightarrow>
          (case st_send_slice st (ps_sockets s1) h (pb_remaining p) of
             (sk, None) \<Rightarrow> (s1\<lparr> ps_sockets := sk \<rparr>, conn1, [])
           | (sk, Some n) \<Rightarrow>
               if n = 0 then (s1\<lparr> ps_sockets := sk \<rparr>, conn1, [])
               else
                 let (s2, conn2, w) = send_to_socket st now h (note_sent now h n (s1\<lparr> ps_sockets := sk \<rparr>))
                                        (sent_chunk now h n p conn1)
                 in (s2, conn2, take n (pb_remaining p) @ w)))"
  by pat_completeness auto
termination
  by (relation "measure (\<lambda>(_, _, _, _, c). bridge_load c)")
    (auto dest!: load_chunk_load intro: less_le_trans [OF sent_chunk_load])

declare send_to_socket.simps [simp del]

definition service_conn ::
  "'sk tcp_stack \<Rightarrow> nat \<Rightarrow> 'sk poll_state \<Rightarrow> SocketHandle \<Rightarrow> 'sk poll_state" where
  "service_conn st now s h =
     (case map_of (ps_active s) h of
        None \<Rightarrow> s
      | Some conn \<Rightarrow>
          let (s, conn) = recv_from_client st now h s conn;
              (s, conn, _) = send_to_socket st now h s conn
          in s\<lparr> ps_active := hm_insert h conn (ps_active s) \<rparr>)"

definition service_active :: "'sk tcp_stack \<Rightarrow> nat \<Rightarrow> 'sk poll_state \<Rightarrow> 'sk poll_state" where
  "service_active st now s = foldl (service_conn st now) s (keys (ps_active s))"

subsection \<open>Removing closed connections\<close>

definition remove_conn :: "'sk tcp_stack \<Rightarrow> 'sk poll_state \<Rightarrow> SocketHandle \<Rightarrow> 'sk poll_state" where
  "remove_conn st s h =
     s\<lparr> ps_active := hm_remove h (ps_active s),
        ps_promoted := removeAll h (ps_promoted s),
        ps_sockets := st_remove st (ps_sockets s) h,
        ps_flows := hm_remove h (ps_flows s) \<rparr>"

definition remove_closed :: "'sk tcp_stack \<Rightarrow> 'sk poll_state \<Rightarrow> 'sk poll_state" where
  "remove_closed st s =
     (let closed = filter (\<lambda>h. \<not> st_is_active st (ps_sockets s) h \<and> \<not> st_is_listen st (ps_sockets s) h)
                     (keys (ps_active s));
          s = foldl (remove_conn st) s closed
      in s\<lparr> ps_promoted := filter (\<lambda>h. h \<in> set (keys (ps_active s))) (ps_promoted s) \<rparr>)"

definition rst_summary :: "'sk poll_state \<Rightarrow> 'sk poll_state" where
  "rst_summary s =
     (let rst_total = saturating_add (ps_inbound_rst s) (ps_outbound_rst s);
          rst_bucket = rst_total div 500
      in if rst_total \<noteq> 0 \<and> ps_last_rst_bucket s < rst_bucket
         then s\<lparr> ps_last_rst_bucket := rst_bucket \<rparr> else s)"

subsection \<open>One turn of the loop\<close>

text \<open>
  \<open>connected\<close> is false when the sender of the command channel is gone: the queued
  commands are still delivered, then the thread returns.  The result tells whether
  the thread goes on.
\<close>

definition poll_turn ::
  "'sk tcp_stack \<Rightarrow> nat \<Rightarrow> PollCommand list \<Rightarrow> bool \<Rightarrow> 'sk poll_state \<Rightarrow> (bool \<times> 'sk poll_state) exec" where
  "poll_turn st now cmds connected s =
     (let s = drain_commands st s cmds
      in if \<not> connected then Return (False, s)
         else
           let s = poll_stack st s
           in case drain_tx s (ps_tx s) of
                Panic \<Rightarrow> Panic
              | Return s \<Rightarrow>
                  Return (True, rst_summary (remove_closed st (service_active st now
                                  (promote_established st now s)))))"

text \<open>
  The reader of the bridge task with connection id \<open>cid\<close> and channel \<open>ch\<close>: it counts the
  chunk on the first flow with that id and sends it, which fails when the connection is gone.
\<close>

definition bridge_read :: "nat \<Rightarrow> u32 \<Rightarrow> nat \<Rightarrow> bytes \<Rightarrow> 'sk poll_state \<Rightarrow> 'sk poll_state \<times> bool" where
  "bridge_read now cid ch b s =
     (let s = (case find (\<lambda>(h, r). tf_conn_id r = cid) (ps_flows s) of
                 None \<Rightarrow> s
               | Some (h, _) \<Rightarrow>
                   touch_flow h (\<lambda>r. r\<lparr> tf_bridge_read_chunks := saturating_add (tf_bridge_read_chunks r) 1,
                     tf_bridge_read_bytes := saturating_add (tf_bridge_read_bytes r) (of_nat (length b)),
                     tf_last_activity_at := now \<rparr>) s)
      in case find (\<lambda>(h, c). a_channel c = ch) (ps_active s) of
           None \<Rightarrow> (s, False)
         | Some (h, _) \<Rightarrow>
             (s\<lparr> ps_active := hm_update h (\<lambda>c. c\<lparr> from_bridge := from_bridge c @ [b] \<rparr>) (ps_active s) \<rparr>, True))"

subsection \<open>Status snapshot\<close>

record TcpFlowSnapshot =
  tsn_session_id :: u64
  tsn_client_src :: string
  tsn_client_dst :: string
  tsn_created_ago :: string
  tsn_last_activity_ago :: string
  tsn_client_to_remote_packets :: u64
  tsn_remote_to_client_packets :: u64
  tsn_bridge_read_chunks :: u64
  tsn_bridge_read_bytes :: u64
  tsn_bridge_read_avg_bytes :: u64
  tsn_bridge_to_smoltcp_chunks :: u64
  tsn_bridge_to_smoltcp_bytes :: u64
  tsn_bridge_to_smoltcp_avg_bytes :: u64

record ForwarderSnapshot =
  fs_tcp_flows :: "TcpFlowSnapshot list"
  fs_udp_flows :: "UdpFlowSnapshot list"
  fs_icmp_probes :: "IcmpProbeSnapshot list"

definition tcp_row :: "nat \<Rightarrow> TcpFlowRecord \<Rightarrow> TcpFlowSnapshot" where
  "tcp_row now r =
     \<lparr> tsn_session_id = tf_session_id r,
       tsn_client_src = show_endpoint (tf_src_ip r) (tf_src_port r),
       tsn_client_dst = show_endpoint (tf_dst_ip r) (tf_dst_port r),
       tsn_created_ago = format_elapsed now (tf_created_at r),
       tsn_last_activity_ago = format_elapsed now (tf_last_activity_at r),
       tsn_client_to_remote_packets = tf_client_to_remote r,
       tsn_remote_to_client_packets = tf_remote_to_client r,
       tsn_bridge_read_chunks = tf_bridge_read_chunks r,
       tsn_bridge_read_bytes = tf_bridge_read_bytes r,
       tsn_bridge_read_avg_bytes =
         (if tf_bridge_read_chunks r = 0 then 0 else tf_bridge_read_bytes r div tf_bridge_read_chunks r),
       tsn_bridge_to_smoltcp_chunks = tf_bridge_to_smoltcp_chunks r,
       tsn_bridge_to_smoltcp_bytes = tf_bridge_to_smoltcp_bytes r,
       tsn_bridge_to_smoltcp_avg_bytes =
         (if tf_bridge_to_smoltcp_chunks r = 0 then 0
          else tf_bridge_to_smoltcp_bytes r div tf_bridge_to_smoltcp_chunks r) \<rparr>"

definition forwarder_snapshot ::
  "nat \<Rightarrow> (SocketHandle, TcpFlowRecord) hmap \<Rightarrow> UdpSessionTracker \<Rightarrow> IcmpSessionTracker \<Rightarrow> ForwarderSnapshot" where
  "forwarder_snapshot now flows udp icmp =
     \<lparr> fs_tcp_flows = map (tcp_row now \<circ> snd) flows, fs_udp_flows = udp_snapshot now udp,
       fs_icmp_probes = icmp_snapshot now icmp \<rparr>"

subsection \<open>Reachable states\<close>

inductive poll_reach :: "'sk tcp_stack \<Rightarrow> 'sk poll_state \<Rightarrow> bool" for st where
  start: "poll_reach st (poll_init sid sk)"
| turn: "poll_reach st s \<Longrightarrow> poll_turn st now cmds connected s = Return (go, s') \<Longrightarrow> poll_reach st s'"
| bridge: "poll_reach st s \<Longrightarrow> poll_reach st (fst (bridge_read now cid ch b s))"

subsection \<open>Invariant of the thread\<close>

definition flow_of_conn :: "TcpFlowRecord \<Rightarrow> conn_tuple" where
  "flow_of_conn r = \<lparr> ct_client_ip = tf_src_ip r, ct_client_port = tf_src_port r,
                      ct_server_port = tf_dst_port r, ct_original = tf_dst_ip r \<rparr>"

text \<open>The part of a state that says which connections there are.\<close>

definition conn_view :: "'sk poll_state \<Rightarrow> SocketHandle \<Rightarrow> (conn_tuple \<times> nat) option" where
  "conn_view s h = map_option (\<lambda>c. (active_tuple c, a_channel c)) (map_of (ps_active s) h)"

definition flow_view :: "'sk poll_state \<Rightarrow> SocketHandle \<Rightarrow> conn_tuple option" where
  "flow_view s h = map_option flow_of_conn (map_of (ps_flows s) h)"

definition conns_ok ::
  "(u32 \<times> Ipv4Addr \<times> u16) list \<Rightarrow> (SocketHandle \<Rightarrow> (conn_tuple \<times> nat) option)
   \<Rightarrow> (SocketHandle \<Rightarrow> conn_tuple option) \<Rightarrow> bool" where
  "conns_ok bridges cv fv \<longleftrightarrow>
     (\<forall>h. fv h = map_option fst (cv h)) \<and>
     (\<forall>h h' t t' ch ch'. cv h = Some (t, ch) \<longrightarrow> cv h' = Some (t', ch') \<longrightarrow>
        ct_client_ip t = ct_client_ip t' \<longrightarrow> ct_client_port t = ct_client_port t' \<longrightarrow>
        ct_server_port t = ct_server_port t' \<longrightarrow> ct_original t = ct_original t') \<and>
     (\<forall>h t ch. cv h = Some (t, ch) \<longrightarrow>
        ch < length bridges \<and> snd (bridges ! ch) = (ct_original t, ct_server_port t)) \<and>
     (\<forall>h h' t t' ch. cv h = Some (t, ch) \<longrightarrow> cv h' = Some (t', ch) \<longrightarrow> h = h')"

definition poll_inv :: "'sk poll_state \<Rightarrow> bool" where
  "poll_inv s \<longleftrightarrow>
     distinct (keys (ps_active s)) \<and> conns_ok (ps_bridges s) (conn_view s) (flow_view s) \<and>
     ps_global_seq s = of_nat (length (ps_out s)) \<and>
     map f_header (ps_out s) =
       map (\<lambda>i. \<lparr> h_connection_id = 0, h_sequence = of_nat i, h_flags = 0 \<rparr>) [0..<length (ps_out s)]"

text \<open>The phases of a turn that keep every component the invariant reads.\<close>

definition same_conns :: "'sk poll_state \<Rightarrow> 'sk poll_state \<Rightarrow> bool" where
  "same_conns s s' \<longleftrightarrow>
     (distinct (keys (ps_active s)) \<longrightarrow> distinct (keys (ps_active s'))) \<and>
     ps_bridges s' = ps_bridges s \<and> conn_view s' = conn_view s \<and> flow_view s' = flow_view s \<and>
     ps_global_seq s' = ps_global_seq s \<and> ps_out s' = ps_out s"

lemma same_conns_refl [simp, intro]: "same_conns s s" by (simp add: same_conns_def)

lemma same_conns_trans: "same_conns s t \<Longrightarrow> same_conns t u \<Longrightarrow> same_conns s u"
  by (simp add: same_conns_def)

lemma same_conns_inv: "same_conns s s' \<Longrightarrow> poll_inv s \<Longrightarrow> poll_inv s'"
  by (simp add: same_conns_def poll_inv_def)

lemma foldl_same_conns:
  assumes "\<And>s x. same_conns s (f s x)"
  shows "same_conns s (foldl f s xs)"
  using assms by (induction xs arbitrary: s) (auto intro: same_conns_trans)

lemma same_conns_fields:
  assumes "ps_active s' = ps_active s" "ps_flows s' = ps_flows s" "ps_bridges s' = ps_bridges s"
    "ps_global_seq s' = ps_global_seq s" "ps_out s' = ps_out s"
  shows "same_conns s s'"
  using assms by (simp add: same_conns_def conn_view_def flow_view_def fun_eq_iff)

lemma run_command_same: "same_conns s (run_command st s c)"
  by (cases c) (auto intro!: same_conns_fields simp: Let_def split: option.split)

lemma drain_commands_same: "same_conns s (drain_commands st s cmds)"
  unfolding drain_commands_def by (intro foldl_same_conns run_command_same)

lemma poll_stack_same: "same_conns s (poll_stack st s)"
  by (auto intro!: same_conns_fields simp: poll_stack_def Let_def split: prod.split)

lemma touch_flow_same:
  assumes "\<And>r. flow_of_conn (f r) = flow_of_conn r"
  shows "same_conns s (touch_flow h f s)"
  using assms
  by (auto simp: same_conns_def touch_flow_def conn_view_def flow_view_def map_of_hm_update fun_eq_iff
      option.map_comp comp_def)

lemma count_outbound_rst_same: "same_conns s (count_outbound_rst pkt s)"
  by (auto intro!: same_conns_fields simp: count_outbound_rst_def split: option.split)

lemma count_unmatched_rst_same: "same_conns s (count_unmatched_rst pkt s)"
  by (auto intro!: same_conns_fields simp: count_unmatched_rst_def split: option.split)

lemma rst_summary_same: "same_conns s (rst_summary s)"
  by (auto intro!: same_conns_fields simp: rst_summary_def Let_def)

lemma poll_inv_out:
  assumes "poll_inv s" and "ps_active s' = ps_active s" "ps_flows s' = ps_flows s"
    "ps_bridges s' = ps_bridges s" "ps_global_seq s' = ps_global_seq s + 1"
    "ps_out s' = ps_out s @ [fr]"
    "f_header fr = \<lparr> h_connection_id = 0, h_sequence = ps_global_seq s, h_flags = 0 \<rparr>"
  shows "poll_inv s'"
  using assms by (simp add: poll_inv_def conn_view_def [abs_def] flow_view_def [abs_def])

lemma send_to_client_inv:
  assumes "send_to_client pkt o' s = Return s'" "poll_inv s"
  shows "poll_inv s'"
  using assms by (auto simp: send_to_client_def intro: poll_inv_out split: exec.splits)

lemma emit_packet_inv:
  assumes "emit_packet s pkt = Return s'" "poll_inv s"
  shows "poll_inv s'"
proof -
  note counts = same_conns_inv [OF count_outbound_rst_same assms(2)]
    same_conns_inv [OF count_unmatched_rst_same assms(2)]
  have amb: "poll_inv (s\<lparr> ps_ambiguous := x \<rparr>)" for x
    by (rule same_conns_inv [OF same_conns_fields assms(2)]) auto
  show ?thesis
    using assms counts amb
    by (auto simp: emit_packet_def Let_def dest: send_to_client_inv
        split: if_splits prod.splits option.splits bool.splits)
qed

lemma drain_tx_inv: "drain_tx s pkts = Return s' \<Longrightarrow> poll_inv s \<Longrightarrow> poll_inv s'"
proof (induction pkts arbitrary: s)
  case Nil
  then show ?case by (auto intro: same_conns_inv [OF same_conns_fields])
next
  case (Cons p ps)
  then show ?case by (auto intro: emit_packet_inv split: exec.splits)
qed

lemma no_tuple_conflict:
  assumes "\<not> tuple_conflict s p" "conn_view s h = Some (t, ch)"
    "ct_client_ip t = p_client_src_ip p" "ct_client_port t = p_client_src_port p"
    "ct_server_port t = p_dst_port p"
  shows "ct_original t = p_original_dst_ip p"
  using assms
  by (auto simp: tuple_conflict_def conn_view_def active_tuple_def list_ex_iff dest!: map_of_SomeD)

lemma conns_okD:
  assumes "conns_ok bs cv fv"
  shows "fv h = map_option fst (cv h)"
    and "cv h = Some (t, ch) \<Longrightarrow> cv h' = Some (t', ch') \<Longrightarrow> ct_client_ip t = ct_client_ip t' \<Longrightarrow>
      ct_client_port t = ct_client_port t' \<Longrightarrow> ct_server_port t = ct_server_port t' \<Longrightarrow>
      ct_original t = ct_original t'"
    and "cv h = Some (t, ch) \<Longrightarrow> ch < length bs \<and> snd (bs ! ch) = (ct_original t, ct_server_port t)"
    and "cv h = Some (t, ch) \<Longrightarrow> cv h' = Some (t', ch) \<Longrightarrow> h = h'"
  using assms unfolding conns_ok_def by blast+

lemma conns_okI:
  assumes "\<And>h. fv h = map_option fst (cv h)"
    and "\<And>h t ch h' t' ch'. cv h = Some (t, ch) \<Longrightarrow> cv h' = Some (t', ch') \<Longrightarrow>
      ct_client_ip t = ct_client_ip t' \<Longrightarrow> ct_client_port t = ct_client_port t' \<Longrightarrow>
      ct_server_port t = ct_server_port t' \<Longrightarrow> ct_original t = ct_original t'"
    and "\<And>h t ch. cv h = Some (t, ch) \<Longrightarrow>
      ch < length bs \<and> snd (bs ! ch) = (ct_original t, ct_server_port t)"
    and "\<And>h t ch h' t'. cv h = Some (t, ch) \<Longrightarrow> cv h' = Some (t', ch) \<Longrightarrow> h = h'"
  shows "conns_ok bs cv fv"
  using assms unfolding conns_ok_def by blast

lemma conns_ok_insert:
  assumes ok: "conns_ok bs cv fv"
    and agree: "\<And>h' t' ch. cv h' = Some (t', ch) \<Longrightarrow> ct_client_ip t' = ct_client_ip t \<Longrightarrow>
                  ct_client_port t' = ct_client_port t \<Longrightarrow> ct_server_port t' = ct_server_port t \<Longrightarrow>
                  ct_original t' = ct_original t"
    and b: "snd b = (ct_original t, ct_server_port t)"
  shows "conns_ok (bs @ [b]) (cv(h \<mapsto> (t, length bs))) (fv(h \<mapsto> t))"
proof (rule conns_okI, goal_cases)
  case (1 h') then show ?case using conns_okD(1) [OF ok] by simp
next
  case (2 h1 t1 ch1 h2 t2 ch2)
  consider "h1 = h" "h2 = h" | "h1 = h" "h2 \<noteq> h" | "h1 \<noteq> h" "h2 = h" | "h1 \<noteq> h" "h2 \<noteq> h" by blast
  then show ?case
  proof cases
    case 1 with 2 show ?thesis by simp
  next
    case c: 2 with 2 agree [of h2 t2 ch2] show ?thesis by simp
  next
    case 3 with 2 agree [of h1 t1 ch1] show ?thesis by simp
  next
    case 4 with 2 conns_okD(2) [OF ok, of h1 t1 ch1 h2 t2 ch2] show ?thesis by simp
  qed
next
  case (3 h' t' ch)
  then show ?case
    using conns_okD(3) [OF ok, of h' t' ch] b by (cases "h' = h") (simp_all add: nth_append)
next
  case (4 h1 t1 ch h2 t2)
  then show ?case
    using conns_okD(3) [OF ok, of h1 t1 ch] conns_okD(3) [OF ok, of h2 t2 ch]
      conns_okD(4) [OF ok, of h1 t1 ch h2 t2]
    by (cases "h1 = h"; cases "h2 = h") simp_all
qed

lemma promote_one_inv:
  assumes "poll_inv s" shows "poll_inv (promote_one st now s i)"
proof (cases "tuple_conflict (s\<lparr> ps_pending := remove_at i (ps_pending s) \<rparr>) (ps_pending s ! i)")
  case True
  then show ?thesis
    by (intro same_conns_inv [OF same_conns_fields assms]) (simp_all add: promote_one_def Let_def)
next
  case False
  let ?p = "ps_pending s ! i" and ?s' = "promote_one st now s i"
  have nc: "\<not> tuple_conflict s ?p" using False by (simp add: tuple_conflict_def)
  have cv: "conn_view ?s' = (conn_view s)(p_handle ?p \<mapsto> (pending_tuple ?p, length (ps_bridges s)))"
    and fv: "flow_view ?s' = (flow_view s)(p_handle ?p \<mapsto> pending_tuple ?p)"
    and br: "ps_bridges ?s' = ps_bridges s @ [(ps_next_conn_id s, p_original_dst_ip ?p, p_dst_port ?p)]"
    and rest: "ps_out ?s' = ps_out s" "ps_global_seq ?s' = ps_global_seq s"
      "distinct (keys (ps_active s)) \<Longrightarrow> distinct (keys (ps_active ?s'))"
    using False
    by (auto simp: promote_one_def Let_def conn_view_def flow_view_def active_tuple_def pending_tuple_def
        flow_of_conn_def fun_eq_iff)
  show ?thesis
    using assms rest unfolding poll_inv_def cv fv br
    by (auto intro!: conns_ok_insert no_tuple_conflict [OF nc] simp: pending_tuple_def)
qed

lemma promote_established_inv:
  assumes "poll_inv s" shows "poll_inv (promote_established st now s)"
proof -
  have "poll_inv (foldl (promote_one st now) s is)" for "is"
    using assms by (induction "is" arbitrary: s) (auto intro: promote_one_inv)
  then show ?thesis by (simp add: promote_established_def)
qed

text \<open>Servicing a connection changes its queues, not its identity.\<close>

definition same_conn :: "ActiveTcpConn \<Rightarrow> ActiveTcpConn \<Rightarrow> bool" where
  "same_conn c d \<longleftrightarrow> active_tuple d = active_tuple c \<and> a_channel d = a_channel c"

definition same_but_queues :: "'sk poll_state \<Rightarrow> ActiveTcpConn \<Rightarrow> 'sk poll_state \<Rightarrow> ActiveTcpConn \<Rightarrow> bool" where
  "same_but_queues s c s' c' \<longleftrightarrow> same_conns s s' \<and> ps_active s' = ps_active s \<and> same_conn c c'"

lemma same_but_queues_trans:
  "same_but_queues s c t d \<Longrightarrow> same_but_queues t d u e \<Longrightarrow> same_but_queues s c u e"
  by (auto simp: same_but_queues_def same_conn_def intro: same_conns_trans)

lemma touch_flow_active [simp]: "ps_active (touch_flow h f s) = ps_active s"
  by (simp add: touch_flow_def)

lemma sockets_same: "same_conns s (s\<lparr> ps_sockets := sk \<rparr>)"
  by (rule same_conns_fields) simp_all

lemma recv_from_client_same:
  "same_but_queues s c (fst (recv_from_client st now h s c)) (snd (recv_from_client st now h s c))"
  by (auto simp: recv_from_client_def same_but_queues_def same_conn_def active_tuple_def Let_def
      flow_of_conn_def sockets_same
      intro!: same_conns_trans [OF sockets_same touch_flow_same] split: prod.split)

lemma load_chunk_same:
  "load_chunk now h s c = Load_continue s' c' \<Longrightarrow> same_but_queues s c s' c'"
  "load_chunk now h s c = Load_ready s' c' p \<Longrightarrow> same_but_queues s c s' c'"
  by (auto simp: load_chunk_def same_but_queues_def same_conn_def active_tuple_def Let_def
      flow_of_conn_def intro!: touch_flow_same split: option.splits list.splits if_splits)

lemma note_sent_same: "same_but_queues s c (note_sent now h n (s\<lparr> ps_sockets := sk \<rparr>)) (sent_chunk now h n p c)"
  by (auto simp: note_sent_def sent_chunk_def same_but_queues_def same_conn_def active_tuple_def Let_def
      flow_of_conn_def intro!: same_conns_trans [OF sockets_same touch_flow_same])

lemma stop_same: "same_but_queues s c (s\<lparr> ps_sockets := sk \<rparr>) c"
  by (simp add: same_but_queues_def same_conn_def sockets_same)

lemma send_to_socket_rule:
  assumes stop: "\<And>s c. \<not> st_can_send st (ps_sockets s) h \<or> load_chunk now h s c = Load_break \<Longrightarrow> P s c s c []"
    and cont: "\<And>s c s1 c1 s' c' w. load_chunk now h s c = Load_continue s1 c1 \<Longrightarrow>
      P s1 c1 s' c' w \<Longrightarrow> P s c s' c' w"
    and refused: "\<And>s c s1 c1 p sk r. load_chunk now h s c = Load_ready s1 c1 p \<Longrightarrow>
      st_send_slice st (ps_sockets s1) h (pb_remaining p) = (sk, r) \<Longrightarrow> r = None \<or> r = Some 0 \<Longrightarrow>
      P s c (s1\<lparr> ps_sockets := sk \<rparr>) c1 []"
    and sent: "\<And>s c s1 c1 p sk n s' c' w. load_chunk now h s c = Load_ready s1 c1 p \<Longrightarrow>
      st_send_slice st (ps_sockets s1) h (pb_remaining p) = (sk, Some n) \<Longrightarrow>
      P (note_sent now h n (s1\<lparr> ps_sockets := sk \<rparr>)) (sent_chunk now h n p c1) s' c' w \<Longrightarrow>
      P s c s' c' (take n (pb_remaining p) @ w)"
  shows "send_to_socket st now h s c = (s', c', w) \<Longrightarrow> P s c s' c' w"
proof (induction "bridge_load c" arbitrary: s c s' c' w rule: less_induct)
  case less
  show ?case
  proof (cases "st_can_send st (ps_sockets s) h")
    case False
    with less(2) stop show ?thesis by (subst (asm) send_to_socket.simps) auto
  next
    case can: True
    show ?thesis
    proof (cases "load_chunk now h s c")
      case Load_break
      with can less(2) stop show ?thesis by (subst (asm) send_to_socket.simps) auto
    next
      case (Load_continue s1 c1)
      with can less(2) have "send_to_socket st now h s1 c1 = (s', c', w)"
        by (subst (asm) send_to_socket.simps) simp
      with less(1) load_chunk_load(1) [OF Load_continue] cont [OF Load_continue] show ?thesis by blast
    next
      case (Load_ready s1 c1 p)
      obtain sk r where sl: "st_send_slice st (ps_sockets s1) h (pb_remaining p) = (sk, r)" by fastforce
      show ?thesis
      proof (cases "r = None \<or> r = Some 0")
        case True
        with can Load_ready sl less(2) refused [OF Load_ready sl] show ?thesis
          by (subst (asm) send_to_socket.simps) auto
      next
        case False
        then obtain n where r: "r = Some n" "0 < n" by auto
        let ?s2 = "note_sent now h n (s1\<lparr> ps_sockets := sk \<rparr>)" and ?c2 = "sent_chunk now h n p c1"
        obtain s3 c3 w3 where rec: "send_to_socket st now h ?s2 ?c2 = (s3, c3, w3)" by (metis prod_cases3)
        have load: "bridge_load ?c2 < bridge_load c"
          using load_chunk_load(2) [OF Load_ready] sent_chunk_load r(2) less_le_trans by blast
        have "(s', c', w) = (s3, c3, take n (pb_remaining p) @ w3)"
          using can Load_ready sl r rec less(2) by (subst (asm) (2) send_to_socket.simps) simp
        with sent [OF Load_ready, of sk n] sl r less(1) [OF load rec] show ?thesis by simp
      qed
    qed
  qed
qed

lemma send_to_socket_same:
  assumes "send_to_socket st now h s c = (s', c', w)"
  shows "same_but_queues s c s' c'"
  using _ _ _ _ assms
proof (rule send_to_socket_rule [where P = "\<lambda>s c s' c' w. same_but_queues s c s' c'"], goal_cases)
  case (1 s c) show ?case by (simp add: same_but_queues_def same_conn_def)
next
  case (2 s c s1 c1 s' c' w) then show ?case by (blast intro: load_chunk_same same_but_queues_trans)
next
  case (3 s c s1 c1 p sk r) then show ?case by (blast intro: load_chunk_same stop_same same_but_queues_trans)
next
  case (4 s c s1 c1 p sk n s' c' w)
  then show ?case by (blast intro: load_chunk_same note_sent_same same_but_queues_trans)
qed

lemma service_conn_same: "same_conns s (service_conn st now s h)"
proof (cases "map_of (ps_active s) h")
  case None then show ?thesis by (simp add: service_conn_def)
next
  case (Some c)
  obtain s1 c1 where r: "recv_from_client st now h s c = (s1, c1)" by fastforce
  obtain s2 c2 w where w: "send_to_socket st now h s1 c1 = (s2, c2, w)" by (metis prod_cases3)
  have q: "same_but_queues s c s2 c2"
    using recv_from_client_same [of s c st now h] send_to_socket_same [OF w] r
    by (auto intro: same_but_queues_trans)
  have "same_conns s2 (s2\<lparr> ps_active := hm_insert h c2 (ps_active s2) \<rparr>)"
    using q Some
    by (auto simp: same_conns_def same_but_queues_def same_conn_def conn_view_def flow_view_def fun_eq_iff)
  with q show ?thesis
    by (auto simp: service_conn_def Some r w same_but_queues_def intro: same_conns_trans)
qed

lemma service_active_same: "same_conns s (service_active st now s)"
  unfolding service_active_def by (intro foldl_same_conns service_conn_same)

lemma conns_ok_remove:
  assumes "conns_ok bs cv fv" shows "conns_ok bs (cv(h := None)) (fv(h := None))"
proof -
  have sub: "(cv(h := None)) h' = Some x \<Longrightarrow> cv h' = Some x" for h' x by (simp split: if_splits)
  show ?thesis
    by (rule conns_okI)
      (simp add: conns_okD(1) [OF assms], (drule sub)+, erule (4) conns_okD(2) [OF assms],
        drule sub, erule conns_okD(3) [OF assms], (drule sub)+, erule (1) conns_okD(4) [OF assms])
qed

lemma remove_conn_inv:
  assumes "poll_inv s" shows "poll_inv (remove_conn st s h)"
proof -
  have "conn_view (remove_conn st s h) = (conn_view s)(h := None)"
    "flow_view (remove_conn st s h) = (flow_view s)(h := None)"
    by (auto simp: remove_conn_def conn_view_def flow_view_def fun_eq_iff)
  with assms show ?thesis
    unfolding poll_inv_def
    by (simp add: conns_ok_remove remove_conn_def del: fun_upd_apply)
qed

lemma remove_closed_inv:
  assumes "poll_inv s" shows "poll_inv (remove_closed st s)"
proof -
  have "poll_inv (foldl (remove_conn st) s hs)" for hs
    using assms by (induction hs arbitrary: s) (auto intro: remove_conn_inv)
  then show ?thesis
    by (auto simp: remove_closed_def Let_def intro: same_conns_inv [OF same_conns_fields])
qed

lemma bridge_read_same: "same_conns s (fst (bridge_read now cid ch b s))"
proof -
  have upd: "same_conns s (s\<lparr> ps_active := hm_update h (\<lambda>c. c\<lparr> from_bridge := from_bridge c @ [b] \<rparr>) (ps_active s) \<rparr>)"
    for s :: "'a poll_state" and h
    by (auto simp: same_conns_def conn_view_def flow_view_def map_of_hm_update fun_eq_iff active_tuple_def
        option.map_comp comp_def) (simp add: hm_update_def split: option.split)
  define s1 where "s1 = (case find (\<lambda>(h, r). tf_conn_id r = cid) (ps_flows s) of
                 None \<Rightarrow> s
               | Some (h, _) \<Rightarrow>
                   touch_flow h (\<lambda>r. r\<lparr> tf_bridge_read_chunks := saturating_add (tf_bridge_read_chunks r) 1,
                     tf_bridge_read_bytes := saturating_add (tf_bridge_read_bytes r) (of_nat (length b)),
                     tf_last_activity_at := now \<rparr>) s)"
  have "same_conns s s1"
    by (auto simp: s1_def flow_of_conn_def intro!: touch_flow_same split: option.split)
  then have "same_conns s (fst (case find (\<lambda>(h, c). a_channel c = ch) (ps_active s1) of
       None \<Rightarrow> (s1, False)
     | Some (h, _) \<Rightarrow>
         (s1\<lparr> ps_active := hm_update h (\<lambda>c. c\<lparr> from_bridge := from_bridge c @ [b] \<rparr>) (ps_active s1) \<rparr>, True)))"
    using same_conns_trans [OF _ upd] by (auto split: option.split)
  then show ?thesis unfolding bridge_read_def Let_def s1_def .
qed

lemma poll_turn_inv:
  assumes turn: "poll_turn st now cmds connected s = Return (go, s')" and inv: "poll_inv s"
  shows "poll_inv s'"
proof -
  let ?s1 = "drain_commands st s cmds" let ?s2 = "poll_stack st ?s1"
  have i1: "poll_inv ?s1" by (rule same_conns_inv [OF drain_commands_same inv])
  have i2: "poll_inv ?s2" by (rule same_conns_inv [OF poll_stack_same i1])
  show ?thesis
  proof (cases connected)
    case False with turn i1 show ?thesis by (simp add: poll_turn_def)
  next
    case True
    with turn obtain s3 where d: "drain_tx ?s2 (ps_tx ?s2) = Return s3"
      and s': "s' = rst_summary (remove_closed st (service_active st now (promote_established st now s3)))"
      by (auto simp: poll_turn_def Let_def split: exec.splits)
    show ?thesis
      unfolding s'
      by (intro same_conns_inv [OF rst_summary_same] remove_closed_inv
          same_conns_inv [OF service_active_same] promote_established_inv drain_tx_inv [OF d i2])
  qed
qed

lemma poll_reach_inv: "poll_reach st s \<Longrightarrow> poll_inv s"
proof (induction rule: poll_reach.induct)
  case (start sid sk)
  then show ?case by (simp add: poll_inv_def poll_init_def conns_ok_def conn_view_def flow_view_def)
qed (auto intro: poll_turn_inv same_conns_inv [OF bridge_read_same])

subsection \<open>Matching packets with connections\<close>

definition tuple_matches :: "Ipv4Addr \<Rightarrow> u16 \<Rightarrow> u16 \<Rightarrow> conn_tuple \<Rightarrow> bool" where
  "tuple_matches ip cport sport c \<longleftrightarrow>
     ct_client_ip c = ip \<and> ct_client_port c = cport \<and> ct_server_port c = sport"

lemma find_original_some:
  assumes "\<And>c. c \<in> set cs \<Longrightarrow> tuple_matches ip cport sport c \<Longrightarrow> ct_original c = o'"
  shows "find_original ip cport sport (Some o') cs = (Some o', False)"
  using assms by (induction cs) (auto simp: tuple_matches_def)

lemma find_original_agree:
  assumes "\<And>c. c \<in> set cs \<Longrightarrow> tuple_matches ip cport sport c \<Longrightarrow> ct_original c = o'"
    and "\<exists>c\<in>set cs. tuple_matches ip cport sport c"
  shows "find_original ip cport sport None cs = (Some o', False)"
  using assms
proof (induction cs)
  case (Cons d cs)
  show ?case
  proof (cases "tuple_matches ip cport sport d")
    case True
    then have "ct_original d = o'" using Cons.prems(1) by simp
    then show ?thesis
      using True Cons.prems(1) find_original_some [of cs ip cport sport o'] by (simp add: tuple_matches_def)
  next
    case False
    with Cons.prems(2) have ex: "\<exists>c\<in>set cs. tuple_matches ip cport sport c" by simp
    have "find_original ip cport sport None cs = (Some o', False)"
      by (rule Cons.IH [OF _ ex]) (use Cons.prems(1) in simp)
    with False show ?thesis by (auto simp: tuple_matches_def)
  qed
qed simp

lemma active_in_view:
  assumes "distinct (keys (ps_active s))" "(h, c) \<in> set (ps_active s)"
  shows "conn_view s h = Some (active_tuple c, a_channel c)"
  using assms by (simp add: conn_view_def)

lemma active_original:
  assumes "poll_inv s" "(h, c) \<in> set (ps_active s)"
    "tuple_matches ip cport sport (active_tuple c)"
  shows "find_original ip cport sport None (map (active_tuple \<circ> snd) (ps_active s)) =
    (Some (a_original_dst_ip c), False)"
proof -
  have dist: "distinct (keys (ps_active s))" and ok: "conns_ok (ps_bridges s) (conn_view s) (flow_view s)"
    using assms(1) by (simp_all add: poll_inv_def)
  have agree: "ct_original (active_tuple d) = ct_original (active_tuple c)"
    if "(h', d) \<in> set (ps_active s)" "tuple_matches ip cport sport (active_tuple d)" for h' d
    using conns_okD(2) [OF ok active_in_view [OF dist that(1)] active_in_view [OF dist assms(2)]]
      that(2) assms(3)
    by (simp add: tuple_matches_def)
  have "find_original ip cport sport None (map (active_tuple \<circ> snd) (ps_active s)) =
      (Some (ct_original (active_tuple c)), False)"
  proof (rule find_original_agree)
    fix t assume "t \<in> set (map (active_tuple \<circ> snd) (ps_active s))" "tuple_matches ip cport sport t"
    then obtain h' d where "(h', d) \<in> set (ps_active s)" "t = active_tuple d" "tuple_matches ip cport sport (active_tuple d)"
      by auto
    then show "ct_original t = ct_original (active_tuple c)" using agree by blast
  next
    show "\<exists>t\<in>set (map (active_tuple \<circ> snd) (ps_active s)). tuple_matches ip cport sport t"
      using assms(2,3) by force
  qed
  then show ?thesis by (simp add: active_tuple_def)
qed

subsection \<open>The bytes of a connection\<close>

definition unsent :: "ActiveTcpConn \<Rightarrow> bytes" where
  "unsent c = (case pending_from_bridge c of None \<Rightarrow> [] | Some p \<Rightarrow> pb_remaining p) @ concat (from_bridge c)"

lemma load_chunk_unsent:
  "load_chunk now h s c = Load_continue s' c' \<Longrightarrow> unsent c' = unsent c"
  "load_chunk now h s c = Load_ready s' c' p \<Longrightarrow> unsent c' = unsent c \<and> pending_from_bridge c' = Some p"
  "load_chunk now h s c = Load_break \<Longrightarrow> unsent c = []"
  by (auto simp: load_chunk_def unsent_def pb_remaining_def pb_is_complete_def Let_def
      split: option.splits list.splits if_splits)

lemma sent_chunk_unsent:
  assumes "pending_from_bridge c = Some p" "n \<le> length (pb_remaining p)"
  shows "take n (pb_remaining p) @ unsent (sent_chunk now h n p c) = unsent c"
proof -
  let ?p = "p\<lparr> pb_offset := pb_offset p + n \<rparr>"
  have rem: "pb_remaining ?p = drop n (pb_remaining p)" by (simp add: pb_remaining_def add.commute)
  show ?thesis
  proof (cases "pb_is_complete ?p")
    case True
    then have "drop n (pb_remaining p) = []" unfolding rem [symmetric] by (simp add: pb_is_complete_def pb_remaining_def)
    with True assms show ?thesis by (simp add: sent_chunk_def unsent_def Let_def)
  next
    case False
    with rem assms show ?thesis by (simp add: sent_chunk_def unsent_def Let_def)
  qed
qed

subsection \<open>Properties\<close>

text \<open>
  Concrete stacks for the witnesses: handles are numbered, every socket is established at
  once, and a socket accepts at most two bytes per call while its counter is positive.
\<close>

definition counting_stack :: "nat tcp_stack" where
  "counting_stack =
     \<lparr> st_listen = (\<lambda>n port. Some (Suc n, n)), st_poll = (\<lambda>n rx. (n, [], [])),
       st_established = (\<lambda>n h. True), st_can_recv = (\<lambda>n h. False), st_recv = (\<lambda>n h. (n, [])),
       st_can_send = (\<lambda>n h. 0 < n), st_send_slice = (\<lambda>n h b. (n - 1, Some (min 2 (length b)))),
       st_is_active = (\<lambda>n h. True), st_is_listen = (\<lambda>n h. False), st_remove = (\<lambda>n h. n) \<rparr>"

text \<open>
  C15.  In every reachable state of the poll thread: an active connection has a flow record
  with its client and server addresses; its bridge task connects to the server the client
  addressed; no two connections share a bridge; and two connections with the same client
  address, client port and server port have the same server.
\<close>

theorem poll_connections:
  assumes "poll_reach st s" "map_of (ps_active s) h = Some c"
  shows "(\<exists>r. map_of (ps_flows s) h = Some r \<and> flow_of_conn r = active_tuple c) \<and>
    (\<exists>cid. a_channel c < length (ps_bridges s) \<and>
       ps_bridges s ! a_channel c = (cid, a_original_dst_ip c, a_dst_port c)) \<and>
    (\<forall>h' d. map_of (ps_active s) h' = Some d \<longrightarrow>
       (a_channel d = a_channel c \<longrightarrow> h' = h) \<and>
       (a_client_src_ip d = a_client_src_ip c \<and> a_client_src_port d = a_client_src_port c \<and>
        a_dst_port d = a_dst_port c \<longrightarrow> a_original_dst_ip d = a_original_dst_ip c))"
proof -
  have ok: "conns_ok (ps_bridges s) (conn_view s) (flow_view s)"
    using poll_reach_inv [OF assms(1)] by (simp add: poll_inv_def)
  have view: "map_of (ps_active s) h' = Some d \<Longrightarrow> conn_view s h' = Some (active_tuple d, a_channel d)" for h' d
    by (simp add: conn_view_def)
  note c = view [OF assms(2)]
  have "flow_view s h = Some (active_tuple c)" using conns_okD(1) [OF ok, of h] c by simp
  then have 1: "\<exists>r. map_of (ps_flows s) h = Some r \<and> flow_of_conn r = active_tuple c"
    by (auto simp: flow_view_def)
  have 2: "\<exists>cid. a_channel c < length (ps_bridges s) \<and>
      ps_bridges s ! a_channel c = (cid, a_original_dst_ip c, a_dst_port c)"
    using conns_okD(3) [OF ok c] by (cases "ps_bridges s ! a_channel c") (simp add: active_tuple_def)
  have 3: "(a_channel d = a_channel c \<longrightarrow> h' = h) \<and>
       (a_client_src_ip d = a_client_src_ip c \<and> a_client_src_port d = a_client_src_port c \<and>
        a_dst_port d = a_dst_port c \<longrightarrow> a_original_dst_ip d = a_original_dst_ip c)"
    if "map_of (ps_active s) h' = Some d" for h' d
    using conns_okD(2) [OF ok view [OF that] c] conns_okD(4) [OF ok, of h' "active_tuple d" _ h "active_tuple c"]
      view [OF that] c
    by (simp add: active_tuple_def)
  from 1 2 3 show ?thesis by blast
qed

lemma poll_reach_one:
  "poll_turn st now cmds connected (poll_init sid sk) = Return (go, s') \<Longrightarrow> poll_reach st s'"
  by (rule poll_reach.turn [OF poll_reach.start])

lemmas turn_defs = poll_turn_def drain_commands_def poll_stack_def promote_established_def
  newly_established_def promote_one_def service_active_def service_conn_def recv_from_client_def
  remove_closed_def rst_summary_def tuple_conflict_def remove_at_def load_chunk_def

theorem poll_connections_witness:
  "\<exists>s c. poll_turn counting_stack 5 [CreateTcpSocket 443 (Ipv4Addr 1 1 1 1) (Ipv4Addr 10 0 0 2) 5000] True
           (poll_init 7 0) = Return (True, s) \<and>
     map_of (ps_active s) 0 = Some c \<and> snd (ps_bridges s ! a_channel c) = (Ipv4Addr 1 1 1 1, 443)"
proof -
  have "\<exists>s c. poll_turn counting_stack 5 [CreateTcpSocket 443 (Ipv4Addr 1 1 1 1) (Ipv4Addr 10 0 0 2) 5000] True
           (poll_init 7 0) = Return (True, s) \<and> map_of (ps_active s) 0 = Some c \<and>
           a_original_dst_ip c = Ipv4Addr 1 1 1 1 \<and> a_dst_port c = 443"
    by (simp add: turn_defs counting_stack_def poll_init_def send_to_socket.simps Let_def)
  then obtain s c where s: "poll_turn counting_stack 5
      [CreateTcpSocket 443 (Ipv4Addr 1 1 1 1) (Ipv4Addr 10 0 0 2) 5000] True (poll_init 7 0) = Return (True, s)"
    and c: "map_of (ps_active s) 0 = Some c" "a_original_dst_ip c = Ipv4Addr 1 1 1 1" "a_dst_port c = 443"
    by blast
  from poll_connections [OF poll_reach_one [OF s] c(1)] c s show ?thesis by auto
qed

text \<open>
  C16.  A packet the stack emits for the client of an active connection reaches that client
  with the source address of the server of that connection, in a frame with connection
  id 0 and the next sequence number of the thread.
\<close>

theorem poll_emits_original_source:
  assumes "poll_reach st s" "map_of (ps_active s) h = Some c"
    and "24 \<le> length pkt" "drop_bit 4 (pkt ! 0) = 4"
    and "addr_at 16 pkt = a_client_src_ip c" "u16_at 22 pkt = a_client_src_port c"
    and "u16_at 20 pkt = a_dst_port c"
    and "rewrite_src_ip_outbound pkt (a_original_dst_ip c) = Return pkt'"
  shows "\<exists>s'. emit_packet s pkt = Return s' \<and>
    ps_out s' = ps_out s @
      [\<lparr> f_header = \<lparr> h_connection_id = 0, h_sequence = of_nat (length (ps_out s)), h_flags = 0 \<rparr>,
         f_payload = pkt' \<rparr>]"
proof -
  have inv: "poll_inv s" by (rule poll_reach_inv [OF assms(1)])
  have m: "tuple_matches (addr_at 16 pkt) (u16_at 22 pkt) (u16_at 20 pkt) (active_tuple c)"
    using assms(5-7) by (simp add: tuple_matches_def active_tuple_def)
  have seq: "ps_global_seq s = of_nat (length (ps_out s))" using inv by (simp add: poll_inv_def)
  have "emit_packet s pkt = send_to_client pkt (a_original_dst_ip c) (count_outbound_rst pkt s)"
    using active_original [OF inv map_of_SomeD [OF assms(2)] m] assms(3,4)
    by (simp add: emit_packet_def)
  moreover have "ps_out (count_outbound_rst pkt s) = ps_out s"
    "ps_global_seq (count_outbound_rst pkt s) = ps_global_seq s"
    using count_outbound_rst_same [of s pkt] by (simp_all add: same_conns_def)
  ultimately show ?thesis using assms(8) seq by (simp add: send_to_client_def)
qed

theorem poll_emits_original_source_witness:
  "\<exists>s s' pkt'. poll_turn counting_stack 5 [CreateTcpSocket 443 (Ipv4Addr 1 1 1 1) (Ipv4Addr 10 0 0 2) 5000] True
           (poll_init 7 0) = Return (True, s) \<and>
     emit_packet s [0x45, 0, 0, 24, 0, 0, 0, 0, 64, 17, 0, 0, 10, 1, 1, 1, 10, 0, 0, 2, 1, 187, 19, 136] = Return s' \<and>
     ps_out s' = [\<lparr> f_header = \<lparr> h_connection_id = 0, h_sequence = 0, h_flags = 0 \<rparr>, f_payload = pkt' \<rparr>]"
proof -
  let ?pkt = "[0x45, 0, 0, 24, 0, 0, 0, 0, 64, 17, 0, 0, 10, 1, 1, 1, 10, 0, 0, 2, 1, 187, 19, 136] :: bytes"
  have "\<exists>s c. poll_turn counting_stack 5 [CreateTcpSocket 443 (Ipv4Addr 1 1 1 1) (Ipv4Addr 10 0 0 2) 5000] True
           (poll_init 7 0) = Return (True, s) \<and> map_of (ps_active s) 0 = Some c \<and> ps_out s = [] \<and>
           a_original_dst_ip c = Ipv4Addr 1 1 1 1 \<and> a_dst_port c = 443 \<and>
           a_client_src_ip c = Ipv4Addr 10 0 0 2 \<and> a_client_src_port c = 5000"
    by (simp add: turn_defs counting_stack_def poll_init_def send_to_socket.simps Let_def)
  then obtain s c where s: "poll_turn counting_stack 5
      [CreateTcpSocket 443 (Ipv4Addr 1 1 1 1) (Ipv4Addr 10 0 0 2) 5000] True (poll_init 7 0) = Return (True, s)"
    and c: "map_of (ps_active s) 0 = Some c" "a_original_dst_ip c = Ipv4Addr 1 1 1 1" "a_dst_port c = 443"
      "a_client_src_ip c = Ipv4Addr 10 0 0 2" "a_client_src_port c = 5000" "ps_out s = []"
    by blast
  have p: "24 \<le> length ?pkt" "drop_bit 4 (?pkt ! 0) = 4" "addr_at 16 ?pkt = Ipv4Addr 10 0 0 2"
    "u16_at 22 ?pkt = 5000" "u16_at 20 ?pkt = 443"
    by code_simp+
  have "\<exists>q. rewrite_src_ip_outbound ?pkt (Ipv4Addr 1 1 1 1) = Return q"
    by (simp add: rewrite_src_ip_outbound_def Let_def)
  then obtain q where "rewrite_src_ip_outbound ?pkt (Ipv4Addr 1 1 1 1) = Return q" by blast
  with poll_emits_original_source [OF poll_reach_one [OF s] c(1), of ?pkt q] c p s show ?thesis by auto
qed

text \<open>
  C17.  If the stack never claims to have taken more bytes than it was offered, a round of
  the send loop conserves the byte stream of the connection: what the socket accepted, followed
  by what is still queued, is what was queued before.  The round ends only when the
  socket cannot send, everything has been sent, or the socket refused the next bytes.
\<close>

theorem bridge_bytes_conserved:
  assumes law: "\<And>sk b sk' n. st_send_slice st sk h b = (sk', Some n) \<Longrightarrow> n \<le> length b"
    and "send_to_socket st now h s c = (s', c', w)"
  shows "w @ unsent c' = unsent c \<and>
    (\<not> st_can_send st (ps_sockets s') h \<or> unsent c' = [] \<or>
     (\<exists>p sk r. pending_from_bridge c' = Some p \<and> (r = None \<or> r = Some 0) \<and>
        st_send_slice st sk h (pb_remaining p) = (ps_sockets s', r)))"
  using _ _ _ _ assms(2)
proof (rule send_to_socket_rule [where P = "\<lambda>s c s' c' w. w @ unsent c' = unsent c \<and>
    (\<not> st_can_send st (ps_sockets s') h \<or> unsent c' = [] \<or>
     (\<exists>p sk r. pending_from_bridge c' = Some p \<and> (r = None \<or> r = Some 0) \<and>
        st_send_slice st sk h (pb_remaining p) = (ps_sockets s', r)))"], goal_cases)
  case (1 s c) then show ?case using load_chunk_unsent(3) by fastforce
next
  case (2 s c s1 c1 s' c' w) then show ?case using load_chunk_unsent(1) by fastforce
next
  case (3 s c s1 c1 p sk r) then show ?case using load_chunk_unsent(2) [OF 3(1)] by auto
next
  case (4 s c s1 c1 p sk n s' c' w)
  then show ?case
    using load_chunk_unsent(2) [OF 4(1)] sent_chunk_unsent [of c1 p n now h] law [OF 4(2)] by auto
qed

theorem bridge_bytes_conserved_witness:
  "let c = \<lparr> a_original_dst_ip = Ipv4Addr 1 1 1 1, a_dst_port = 443, a_client_src_ip = Ipv4Addr 10 0 0 2,
             a_client_src_port = 5000, a_channel = 0, to_bridge = [], from_bridge = [[1, 2, 3], [], [4, 5]],
             pending_from_bridge = None \<rparr>
   in \<exists>s' c' w. send_to_socket counting_stack 9 0 (poll_init 7 2) c = (s', c', w) \<and> w @ unsent c' = [1, 2, 3, 4, 5]"
proof -
  let ?c = "\<lparr> a_original_dst_ip = Ipv4Addr 1 1 1 1, a_dst_port = 443, a_client_src_ip = Ipv4Addr 10 0 0 2,
             a_client_src_port = 5000, a_channel = 0, to_bridge = [], from_bridge = [[1, 2, 3], [], [4, 5]],
             pending_from_bridge = None \<rparr>"
  obtain s' c' w where r: "send_to_socket counting_stack 9 0 (poll_init 7 2) ?c = (s', c', w)"
    by (metis prod_cases3)
  have "unsent ?c = [1, 2, 3, 4, 5]" by (simp add: unsent_def)
  with bridge_bytes_conserved [OF _ r] r show ?thesis by (fastforce simp: counting_stack_def Let_def)
qed

end
