(* ===== verification/Json.thy ===== *)
theory Json
  imports Strings "HOL-Library.Countable"
begin

text \<open>
  JSON values and the field access which \<^verbatim>\<open>serde\<close> derives for the message structs of the
  sources: a struct is read from an object, whose known fields must not occur twice and
  whose unknown fields are ignored, or from an array that lists its fields in order.  The
  text syntax itself (crate \<^verbatim>\<open>serde_json\<close>) is the parameter \<open>js\<close> of the definitions
  that use it.
\<close>

datatype json =
    JNull
  | JBool bool
  | JNum int
  | JStr string
  | JArr "json list"
  | JObj "(string \<times> json) list"

record json_codec =
  json_parse :: "string \<Rightarrow> json option"
  json_print :: "json \<Rightarrow> string"

text \<open>Reading back what was printed, also behind trailing white space.\<close>

definition json_ok :: "json_codec \<Rightarrow> bool" where
  "json_ok js \<longleftrightarrow> (\<forall>v. json_parse js (trim_end (json_print js v)) = Some v \<and>
                      json_parse js (json_print js v) = Some v \<and>
                      json_parse js (trim (json_print js v)) = Some v \<and>
                      json_parse js (trim_end (json_print js v @ [CHR 0x0A])) = Some v)"

text \<open>An object made by \<^verbatim>\<open>json!\<close> is a map that prints its keys in order.\<close>

fun obj_insert :: "string \<Rightarrow> json \<Rightarrow> (string \<times> json) list \<Rightarrow> (string \<times> json) list" where
  "obj_insert k v [] = [(k, v)]"
| "obj_insert k v ((k', v') # kvs) =
     (if k = k' then (k, v) # kvs
      else if string_less k k' then (k, v) # (k', v') # kvs
      else (k', v') # obj_insert k v kvs)"

definition json_object :: "(string \<times> json) list \<Rightarrow> json" where
  "json_object kvs = JObj (foldl (\<lambda>m (k, v). obj_insert k v m) [] kvs)"

text \<open>\<^verbatim>\<open>Value::get\<close> on an object (the last entry of a key wins when a value is parsed) and \<^verbatim>\<open>as_str\<close>.\<close>

fun json_get :: "string \<Rightarrow> json \<Rightarrow> json option" where
  "json_get k (JObj kvs) = map_of (rev kvs) k"
| "json_get k _ = None"

fun as_str :: "json \<Rightarrow> string option" where
  "as_str (JStr s) = Some s"
| "as_str _ = None"

definition get_str :: "string \<Rightarrow> json \<Rightarrow> string option" where
  "get_str k v = Option.bind (json_get k v) as_str"

text \<open>The values of the fields of a derived struct, in declaration order.\<close>

definition serde_fields :: "string list \<Rightarrow> json \<Rightarrow> json option list option" where
  "serde_fields ks v =
     (case v of
        JObj kvs \<Rightarrow>
          if list_all (\<lambda>k. length (filter (\<lambda>kv. fst kv = k) kvs) \<le> 1) ks
          then Some (map (map_of kvs) ks) else None
      | JArr vs \<Rightarrow>
          if length vs \<le> length ks
          then Some (map Some vs @ replicate (length ks - length vs) None) else None
      | _ \<Rightarrow> None)"

text \<open>A field of type \<^verbatim>\<open>String\<close>, without and with \<^verbatim>\<open>#[serde(default)]\<close>, and numbers up to a maximum.\<close>

fun str_field :: "json option \<Rightarrow> string option" where
  "str_field (Some (JStr s)) = Some s"
| "str_field _ = None"

fun str_field_default :: "json option \<Rightarrow> string option" where
  "str_field_default None = Some []"
| "str_field_default v = str_field v"

fun uint_field :: "nat \<Rightarrow> json option \<Rightarrow> nat option" where
  "uint_field maxval (Some (JNum i)) = (if 0 \<le> i \<and> i \<le> int maxval then Some (nat i) else None)"
| "uint_field maxval _ = None"

lemma string_less_irrefl [simp]: "\<not> string_less s s" by (induction s) simp_all

lemma string_less_trans: "string_less a b \<Longrightarrow> string_less b c \<Longrightarrow> string_less a c"
proof (induction a b arbitrary: c rule: string_less.induct)
  case (2 x xs)
  then show ?case by (cases c) auto
next
  case (3 x xs y ys)
  then show ?case by (cases c) auto
qed simp

lemma string_less_total: "a \<noteq> b \<Longrightarrow> string_less a b \<or> string_less b a"
proof (induction a b rule: string_less.induct)
  case (1 s)
  then show ?case by (cases s) simp_all
next
  case (3 x xs y ys)
  then show ?case by (metis linorder_neqE_nat of_char_eq_iff string_less.simps(3))
qed simp

definition obj_sorted :: "(string \<times> json) list \<Rightarrow> bool" where
  "obj_sorted kvs \<longleftrightarrow> sorted_wrt string_less (map fst kvs)"

lemma obj_insert_keys: "fst ` set (obj_insert k v m) = insert k (fst ` set m)"
  by (induction k v m rule: obj_insert.induct) auto

lemma obj_insert_sorted: "obj_sorted m \<Longrightarrow> obj_sorted (obj_insert k v m)"
proof (induction k v m rule: obj_insert.induct)
  case (2 k v k' v' kvs)
  have "\<forall>x \<in> fst ` set (obj_insert k v kvs). string_less k' x" if "string_less k' k"
    unfolding obj_insert_keys using that 2(2) by (auto simp: obj_sorted_def)
  with 2 string_less_total [of k k'] show ?case by (auto simp: obj_sorted_def intro: string_less_trans)
qed (simp add: obj_sorted_def)

lemma obj_insert_map: "obj_sorted m \<Longrightarrow> map_of (obj_insert k v m) = (map_of m)(k \<mapsto> v)"
  by (induction k v m rule: obj_insert.induct) (auto simp: obj_sorted_def fun_upd_twist)

lemma obj_fold:
  assumes "obj_sorted m"
  shows "obj_sorted (foldl (\<lambda>m (k, v). obj_insert k v m) m kvs) \<and>
    map_of (foldl (\<lambda>m (k, v). obj_insert k v m) m kvs) = map_of m ++ map_of (rev kvs)"
  using assms
proof (induction kvs arbitrary: m)
  case (Cons kv kvs)
  obtain k v where kv: "kv = (k, v)" by fastforce
  have "map_of m ++ map_of (rev ((k, v) # kvs)) = (map_of m)(k \<mapsto> v) ++ map_of (rev kvs)"
    by (rule ext) (simp add: map_add_def split: option.split)
  with Cons.IH [OF obj_insert_sorted [OF Cons.prems, of k v], unfolded obj_insert_map [OF Cons.prems]]
  show ?case by (simp only: foldl.simps kv prod.case)
qed simp

lemma obj_sorted_once: "obj_sorted m \<Longrightarrow> length (filter (\<lambda>kv. fst kv = k) m) \<le> 1"
proof (induction m)
  case (Cons a m)
  then have "\<forall>kv \<in> set m. string_less (fst a) (fst kv)" by (simp add: obj_sorted_def)
  then have "fst a = k \<Longrightarrow> filter (\<lambda>kv. fst kv = k) m = []" by (auto simp: filter_empty_conv)
  with Cons show ?case by (auto simp: obj_sorted_def)
qed simp

lemma serde_fields_object [simp]: "serde_fields ks (json_object kvs) = Some (map (map_of (rev kvs)) ks)"
  using obj_fold [of "[]" kvs] obj_sorted_once
  by (simp add: serde_fields_def json_object_def obj_sorted_def list_all_iff)

lemma json_get_object [simp]: "json_get k (json_object kvs) = map_of (rev kvs) k"
proof -
  let ?m = "foldl (\<lambda>m (k, v). obj_insert k v m) [] kvs"
  have f: "obj_sorted ?m" "map_of ?m = map_of (rev kvs)" using obj_fold [of "[]" kvs] by (simp_all add: obj_sorted_def)
  have "sorted_wrt string_less ks \<Longrightarrow> distinct ks" for ks by (induction ks) auto
  then have "distinct (map fst ?m)" using f(1) unfolding obj_sorted_def by blast
  then have "map_of (rev ?m) = map_of ?m" using map_of_inject_set [of "rev ?m" ?m] by (simp flip: rev_map)
  with f(2) show ?thesis by (simp add: json_object_def)
qed

lemma json_okD:
  assumes "json_ok js"
  shows "json_parse js (trim_end (json_print js v)) = Some v"
    "json_parse js (trim (json_print js v)) = Some v"
    "json_parse js (trim_end (json_print js v @ [CHR 0x0A])) = Some v"
    "json_parse js (json_print js v) = Some v"
  using assms by (simp_all add: json_ok_def)

lemma str_field_SomeD: "str_field v = Some s \<Longrightarrow> v = Some (JStr s)"
  by (cases v rule: str_field.cases) simp_all

text \<open>A codec with the laws: a value is written as its number in an enumeration of all values.\<close>

instance json :: countable
  by countable_datatype

definition numbering_codec :: json_codec where
  "numbering_codec = \<lparr> json_parse = (\<lambda>s. map_option from_nat (parse_digits 0 s)),
                       json_print = (\<lambda>v. show_nat (to_nat v)) \<rparr>"

lemma numbering_codec_ok: "json_ok numbering_codec"
  by (simp add: json_ok_def numbering_codec_def)

end
