(* ===== verification/Auth.thy ===== *)
theory Auth
  imports Json
begin

text \<open>
  Device keys, invite tokens and authorized keys: \<^verbatim>\<open>bonded-core/src/auth.rs\<close>,
  \<^verbatim>\<open>bonded-server/src/invite_tokens.rs\<close> and \<^verbatim>\<open>authorized_keys.rs\<close>.  Base64 and Ed25519 are
  the parameter \<open>cr\<close>; random bytes are arguments.  A file of the server is \<open>'a disk_file\<close>,
  the document it holds (the TOML syntax is left to its crate) and whether it can be written.
\<close>

subsection \<open>Keys and signatures\<close>

record crypto =
  std_encode :: "bytes \<Rightarrow> string"
  std_decode :: "string \<Rightarrow> bytes option"
  url_encode :: "bytes \<Rightarrow> string"
  url_decode :: "string \<Rightarrow> bytes option"
  ed_public :: "bytes \<Rightarrow> bytes"
  ed_point :: "bytes \<Rightarrow> bool"
  ed_sign :: "bytes \<Rightarrow> bytes \<Rightarrow> bytes"
  ed_verify :: "bytes \<Rightarrow> bytes \<Rightarrow> bytes \<Rightarrow> bool"

text \<open>
  What the code relies on: the codecs round-trip, a public key is a valid point of 32 bytes,
  a signature has 64 bytes, and the owner's signature verifies.
\<close>

definition crypto_ok :: "crypto \<Rightarrow> bool" where
  "crypto_ok cr \<longleftrightarrow>
     (\<forall>b. std_decode cr (std_encode cr b) = Some b \<and> url_decode cr (url_encode cr b) = Some b) \<and>
     (\<forall>k m. length k = 32 \<longrightarrow> length (ed_public cr k) = 32 \<and> ed_point cr (ed_public cr k) \<and>
        length (ed_sign cr k m) = 64 \<and> ed_verify cr (ed_public cr k) m (ed_sign cr k m))"

record DeviceKeypair =
  private_key_b64 :: string
  public_key_b64 :: string

datatype AuthError =
    InvalidBase64
  | InvalidPrivateKeyLength nat
  | InvalidPublicKeyLength nat
  | InvalidSignatureLength nat
  | SignatureVerificationFailed

definition from_signing_key :: "crypto \<Rightarrow> bytes \<Rightarrow> DeviceKeypair" where
  "from_signing_key cr k =
     \<lparr> private_key_b64 = std_encode cr k, public_key_b64 = std_encode cr (ed_public cr k) \<rparr>"

definition decode_private_key :: "crypto \<Rightarrow> string \<Rightarrow> (AuthError, bytes) res" where
  "decode_private_key cr s =
     (case std_decode cr s of
        None \<Rightarrow> Err InvalidBase64
      | Some k \<Rightarrow> if length k = 32 then Ok k else Err (InvalidPrivateKeyLength (length k)))"

definition from_private_key_b64 :: "crypto \<Rightarrow> string \<Rightarrow> (AuthError, DeviceKeypair) res" where
  "from_private_key_b64 cr s = res_bind (decode_private_key cr s) (\<lambda>k. Ok (from_signing_key cr k))"

definition signing_key :: "crypto \<Rightarrow> DeviceKeypair \<Rightarrow> (AuthError, bytes) res" where
  "signing_key cr kp = decode_private_key cr (private_key_b64 kp)"

definition create_auth_challenge :: "crypto \<Rightarrow> bytes \<Rightarrow> string" where
  "create_auth_challenge cr raw = url_encode cr raw"

definition sign_bytes :: "crypto \<Rightarrow> DeviceKeypair \<Rightarrow> bytes \<Rightarrow> (AuthError, string) res" where
  "sign_bytes cr kp message =
     res_bind (signing_key cr kp) (\<lambda>k. Ok (std_encode cr (ed_sign cr k message)))"

definition sign_auth_challenge :: "crypto \<Rightarrow> DeviceKeypair \<Rightarrow> string \<Rightarrow> (AuthError, string) res" where
  "sign_auth_challenge cr kp challenge =
     res_bind (signing_key cr kp) (\<lambda>k.
       res_bind (ok_or InvalidBase64 (url_decode cr challenge)) (\<lambda>c.
         Ok (std_encode cr (ed_sign cr k c))))"

definition decode_public_key :: "crypto \<Rightarrow> string \<Rightarrow> (AuthError, bytes) res" where
  "decode_public_key cr s =
     (case std_decode cr s of
        None \<Rightarrow> Err InvalidBase64
      | Some k \<Rightarrow>
          if length k = 32 \<and> ed_point cr k then Ok k else Err (InvalidPublicKeyLength (length k)))"

definition decode_signature :: "crypto \<Rightarrow> string \<Rightarrow> (AuthError, bytes) res" where
  "decode_signature cr s =
     (case std_decode cr s of
        None \<Rightarrow> Err InvalidBase64
      | Some k \<Rightarrow> if length k = 64 then Ok k else Err (InvalidSignatureLength (length k)))"

definition verify_signature :: "crypto \<Rightarrow> string \<Rightarrow> bytes \<Rightarrow> string \<Rightarrow> (AuthError, unit) res" where
  "verify_signature cr public_key message signature =
     res_bind (decode_public_key cr public_key) (\<lambda>k.
       res_bind (decode_signature cr signature) (\<lambda>s.
         if ed_verify cr k message s then Ok () else Err SignatureVerificationFailed))"

definition verify_auth_challenge :: "crypto \<Rightarrow> string \<Rightarrow> string \<Rightarrow> string \<Rightarrow> (AuthError, unit) res" where
  "verify_auth_challenge cr public_key challenge signature =
     res_bind (decode_public_key cr public_key) (\<lambda>k.
       res_bind (ok_or InvalidBase64 (url_decode cr challenge)) (\<lambda>c.
         res_bind (decode_signature cr signature) (\<lambda>s.
           if ed_verify cr k c s then Ok () else Err SignatureVerificationFailed)))"

subsection \<open>Files\<close>

datatype IoError = ReadFailed | WriteFailed

datatype 'a file_state = Missing | Unreadable | Content 'a

record 'a disk_file =
  df_content :: "'a file_state"
  df_writable :: bool

definition load_doc :: "'a \<Rightarrow> 'a disk_file \<Rightarrow> (IoError, 'a) res" where
  "load_doc dflt f =
     (case df_content f of Missing \<Rightarrow> Ok dflt | Unreadable \<Rightarrow> Err ReadFailed | Content v \<Rightarrow> Ok v)"

definition write_doc :: "'a \<Rightarrow> 'a disk_file \<Rightarrow> (IoError, 'a disk_file) res" where
  "write_doc v f = (if df_writable f then Ok (f\<lparr> df_content := Content v \<rparr>) else Err WriteFailed)"

text \<open>
  The key file of a server holds one line.  \<open>trim\<close> and the final newline are part of the
  code; \<open>fresh\<close> are the random bytes of a new key.
\<close>

definition load_or_create_keypair ::
  "crypto \<Rightarrow> bytes \<Rightarrow> string disk_file \<Rightarrow> string disk_file \<times> (AuthError + IoError, DeviceKeypair) res" where
  "load_or_create_keypair cr fresh f =
     (case df_content f of
        Unreadable \<Rightarrow> (f, Err (Inr ReadFailed))
      | Content raw \<Rightarrow>
          (f, case from_private_key_b64 cr (trim raw) of Inl e \<Rightarrow> Err (Inl e) | Inr kp \<Rightarrow> Ok kp)
      | Missing \<Rightarrow>
          let kp = from_signing_key cr fresh
          in case write_doc (private_key_b64 kp @ [CHR 0x0A]) f of
               Inl e \<Rightarrow> (f, Err (Inr e))
             | Inr f' \<Rightarrow> (f', Ok kp))"

subsection \<open>Invite tokens\<close>

record InviteToken =
  it_token :: string
  it_expires_at :: string
  uses_remaining :: u32

definition is_usable :: "InviteToken \<Rightarrow> bool" where "is_usable t \<longleftrightarrow> 0 < uses_remaining t"

datatype InviteTokenError = NotFound | Exhausted

type_synonym InviteTokenManager = "(string, InviteToken) hmap"

definition from_tokens :: "InviteToken list \<Rightarrow> InviteTokenManager" where
  "from_tokens ts = foldl (\<lambda>m t. hm_insert (it_token t) t m) [] ts"

definition all_tokens :: "InviteTokenManager \<Rightarrow> InviteToken list" where
  "all_tokens m = map snd m"

definition generate_invite_token_value :: "crypto \<Rightarrow> bytes \<Rightarrow> string" where
  "generate_invite_token_value cr raw = url_encode cr raw"

definition issue_token ::
  "crypto \<Rightarrow> bytes \<Rightarrow> string \<Rightarrow> u32 \<Rightarrow> InviteTokenManager \<Rightarrow> InviteTokenManager \<times> InviteToken" where
  "issue_token cr raw expires_at uses m =
     (let t = \<lparr> it_token = generate_invite_token_value cr raw, it_expires_at = expires_at,
                uses_remaining = uses \<rparr>
      in (hm_insert (it_token t) t m, t))"

definition redeem ::
  "InviteTokenManager \<Rightarrow> string \<Rightarrow> InviteTokenManager \<times> (InviteTokenError, InviteToken) res" where
  "redeem m v =
     (case map_of m v of
        None \<Rightarrow> (m, Err NotFound)
      | Some t \<Rightarrow>
          if uses_remaining t = 0 then (m, Err Exhausted)
          else let t' = t\<lparr> uses_remaining := uses_remaining t - 1 \<rparr>
               in (hm_insert v t' m, Ok t'))"

type_synonym invites_file = "InviteToken list disk_file"

definition load_manager :: "invites_file \<Rightarrow> (IoError, InviteTokenManager) res" where
  "load_manager f = res_bind (load_doc [] f) (\<lambda>ts. Ok (from_tokens ts))"

definition persist_manager :: "InviteTokenManager \<Rightarrow> invites_file \<Rightarrow> (IoError, invites_file) res" where
  "persist_manager m f = write_doc (all_tokens m) f"

definition unix_timestamp_after :: "u64 \<Rightarrow> u64 \<Rightarrow> u64" where
  "unix_timestamp_after now offset = saturating_add now offset"

definition ensure_startup_invite ::
  "crypto \<Rightarrow> bytes \<Rightarrow> u64 \<Rightarrow> invites_file \<Rightarrow> invites_file \<times> (IoError, InviteToken) res" where
  "ensure_startup_invite cr raw now f =
     (case load_manager f of
        Inl e \<Rightarrow> (f, Err e)
      | Inr m \<Rightarrow>
          (case find is_usable (all_tokens m) of
             Some existing \<Rightarrow> (f, Ok existing)
           | None \<Rightarrow>
               let expires_at = ''unix:'' @ show_nat (unat (unix_timestamp_after now (24 * 60 * 60)));
                   (m', created) = issue_token cr raw expires_at 1 m
               in case persist_manager m' f of
                    Inl e \<Rightarrow> (f, Err e)
                  | Inr f' \<Rightarrow> (f', Ok created)))"

definition redeem_invite_token :: "invites_file \<Rightarrow> string \<Rightarrow> invites_file \<times> (IoError, bool) res" where
  "redeem_invite_token f token =
     (case load_manager f of
        Inl e \<Rightarrow> (f, Err e)
      | Inr m \<Rightarrow>
          let (m', r) = redeem m token; redeemed = is_ok r
          in if redeemed then
               (case persist_manager m' f of Inl e \<Rightarrow> (f, Err e) | Inr f' \<Rightarrow> (f', Ok redeemed))
             else (f, Ok redeemed))"

subsection \<open>Authorized keys\<close>

record AuthorizedDevice =
  ad_device_id :: string
  ad_public_key :: string
  ad_added_at :: "string option"

type_synonym keys_file = "AuthorizedDevice list disk_file"

text \<open>The store in memory and the file behind it.\<close>

record AuthorizedKeysStore =
  ks_file :: keys_file
  ks_devices :: "(string, AuthorizedDevice) hmap"

definition load_devices_map :: "keys_file \<Rightarrow> (IoError, (string, AuthorizedDevice) hmap) res" where
  "load_devices_map f =
     res_bind (load_doc [] f) (\<lambda>ds. Ok (foldl (\<lambda>m d. hm_insert (ad_public_key d) d m) [] ds))"

definition store_load :: "keys_file \<Rightarrow> (IoError, AuthorizedKeysStore) res" where
  "store_load f = res_bind (load_devices_map f) (\<lambda>m. Ok \<lparr> ks_file = f, ks_devices = m \<rparr>)"

definition store_reload :: "AuthorizedKeysStore \<Rightarrow> AuthorizedKeysStore \<times> (IoError, unit) res" where
  "store_reload s =
     (case load_devices_map (ks_file s) of
        Inl e \<Rightarrow> (s, Err e)
      | Inr m \<Rightarrow> (s\<lparr> ks_devices := m \<rparr>, Ok ()))"

definition is_authorized :: "AuthorizedKeysStore \<Rightarrow> string \<Rightarrow> bool" where
  "is_authorized s k \<longleftrightarrow> map_of (ks_devices s) k \<noteq> None"

definition device_count :: "AuthorizedKeysStore \<Rightarrow> nat" where
  "device_count s = length (ks_devices s)"

text \<open>The characters of a UTF-8 string: a lead byte and its continuation bytes.\<close>

definition is_continuation :: "char \<Rightarrow> bool" where
  "is_continuation c \<longleftrightarrow> 128 \<le> char_code c \<and> char_code c < 192"

function utf8_chars :: "string \<Rightarrow> string list" where
  "utf8_chars [] = []"
| "utf8_chars (c # cs) = (c # takeWhile is_continuation cs) # utf8_chars (dropWhile is_continuation cs)"
  by pat_completeness auto
termination
  by (relation "measure length") (simp_all add: le_imp_less_Suc length_dropWhile_le)

definition authorize_device_key :: "keys_file \<Rightarrow> string \<Rightarrow> keys_file \<times> (IoError, bool) res" where
  "authorize_device_key f public_key =
     (case load_doc [] f of
        Inl e \<Rightarrow> (f, Err e)
      | Inr ds \<Rightarrow>
          if list_ex (\<lambda>d. ad_public_key d = public_key) ds then (f, Ok False)
          else
            let d = \<lparr> ad_device_id = ''device-'' @ concat (take 8 (utf8_chars public_key)),
                      ad_public_key = public_key, ad_added_at = None \<rparr>
            in case write_doc (ds @ [d]) f of
                 Inl e \<Rightarrow> (f, Err e)
               | Inr f' \<Rightarrow> (f', Ok True))"

text \<open>
  The watcher of the key file.  Event kinds are those of the crate \<^verbatim>\<open>notify\<close>; \<open>last\<close> is the
  instant of the last reload in milliseconds.
\<close>

datatype EventKind =
    EvCreate | EvRemove | EvModifyAny | EvModifyData | EvModifyName | EvModifyOther
  | EvAccessCloseWrite | EvAccessOther | EvOther

fun should_reload_for_event_kind :: "EventKind \<Rightarrow> bool" where
  "should_reload_for_event_kind k =
     (k \<in> {EvCreate, EvRemove, EvModifyAny, EvModifyData, EvModifyName, EvAccessCloseWrite})"

definition watcher_event ::
  "EventKind \<Rightarrow> nat \<Rightarrow> nat option \<times> AuthorizedKeysStore \<Rightarrow> nat option \<times> AuthorizedKeysStore" where
  "watcher_event kind now = (\<lambda>(last, s).
     if \<not> should_reload_for_event_kind kind then (last, s)
     else
       let should_skip = (case last of Some l \<Rightarrow> now - l < 200 | None \<Rightarrow> False)
       in if should_skip then (last, s) else (Some now, fst (store_reload s)))"

subsection \<open>Laws of keys and files\<close>

lemma crypto_okD:
  assumes "crypto_ok cr"
  shows "std_decode cr (std_encode cr b) = Some b" "url_decode cr (url_encode cr b) = Some b"
    and "length k = 32 \<Longrightarrow> length (ed_public cr k) = 32 \<and> ed_point cr (ed_public cr k)"
    and "length k = 32 \<Longrightarrow> length (ed_sign cr k m) = 64 \<and> ed_verify cr (ed_public cr k) m (ed_sign cr k m)"
  using assms by (simp_all add: crypto_ok_def)

lemma honest_signature:
  assumes "crypto_ok cr" "length k = 32"
  shows "decode_public_key cr (std_encode cr (ed_public cr k)) = Ok (ed_public cr k)"
    and "decode_signature cr (std_encode cr (ed_sign cr k m)) = Ok (ed_sign cr k m)"
    and "signing_key cr (from_signing_key cr k) = Ok k"
  using assms crypto_okD [OF assms(1)]
  by (simp_all add: decode_public_key_def decode_signature_def signing_key_def from_signing_key_def
      decode_private_key_def)

lemma sign_then_verify:
  assumes "crypto_ok cr" "length k = 32" "kp = from_signing_key cr k"
  shows "\<exists>s. sign_auth_challenge cr kp (create_auth_challenge cr raw) = Ok s \<and>
    verify_auth_challenge cr (public_key_b64 kp) (create_auth_challenge cr raw) s = Ok ()"
  using assms crypto_okD [OF assms(1)] honest_signature [OF assms(1,2)]
  by (simp add: sign_auth_challenge_def verify_auth_challenge_def create_auth_challenge_def)
    (simp add: from_signing_key_def)

lemma honest_sign_bytes:
  assumes "crypto_ok cr" "length k = 32"
  shows "sign_bytes cr (from_signing_key cr k) m = Ok (std_encode cr (ed_sign cr k m))"
    and "verify_signature cr (public_key_b64 (from_signing_key cr k)) m (std_encode cr (ed_sign cr k m)) = Ok ()"
    and "sign_auth_challenge cr (from_signing_key cr k) (url_encode cr m) = Ok (std_encode cr (ed_sign cr k m))"
  using honest_signature [OF assms] crypto_okD [OF assms(1)] assms(2)
  by (simp_all add: sign_bytes_def verify_signature_def sign_auth_challenge_def) (simp add: from_signing_key_def)

text \<open>
  A scheme with the laws (and no secrecy): text is the bytes themselves, and a signature is the
  first 64 bytes of key and message.
\<close>

definition plain_crypto :: crypto where
  "plain_crypto =
     \<lparr> std_encode = map (\<lambda>b. char_of (unat b)), std_decode = (\<lambda>s. Some (map (\<lambda>c. of_nat (of_char c)) s)),
       url_encode = map (\<lambda>b. char_of (unat b)), url_decode = (\<lambda>s. Some (map (\<lambda>c. of_nat (of_char c)) s)),
       ed_public = (\<lambda>k. k), ed_point = (\<lambda>k. True),
       ed_sign = (\<lambda>k m. take 64 (k @ m @ replicate 64 0)),
       ed_verify = (\<lambda>k m s. s = take 64 (k @ m @ replicate 64 0)) \<rparr>"

lemma byte_char_byte: "word_of_nat (unat b mod 256) = b" for b :: byte
  using unat_bound [of b] by simp

lemma plain_crypto_ok: "crypto_ok plain_crypto"
  by (auto simp: crypto_ok_def plain_crypto_def byte_char_byte comp_def)

lemma verify_auth_challengeD:
  assumes "verify_auth_challenge cr pk c s = Ok ()"
  shows "\<exists>k m sg. std_decode cr pk = Some k \<and> url_decode cr c = Some m \<and> std_decode cr s = Some sg \<and>
    length k = 32 \<and> length sg = 64 \<and> ed_verify cr k m sg"
  using assms
  by (auto simp: verify_auth_challenge_def decode_public_key_def decode_signature_def res_bind_def
      split: sum.splits option.splits if_splits)

subsection \<open>Counting redemptions\<close>

text \<open>
  A ledger of uses: redeeming succeeds exactly when a use is left, takes one use, and
  leaves the other entries alone.
\<close>

locale use_ledger =
  fixes uses :: "'s \<Rightarrow> string \<Rightarrow> nat"
    and take_use :: "'s \<Rightarrow> string \<Rightarrow> 's \<times> bool"
    and good :: "'s \<Rightarrow> bool"
  assumes take_ok: "good s \<Longrightarrow> snd (take_use s k) \<longleftrightarrow> 0 < uses s k"
    and take_uses: "good s \<Longrightarrow> uses (fst (take_use s k)) j = (if j = k then uses s k - 1 else uses s j)"
    and take_good: "good s \<Longrightarrow> good (fst (take_use s k))"
begin

primrec run_takes :: "'s \<Rightarrow> string list \<Rightarrow> 's \<times> bool list" where
  "run_takes s [] = (s, [])"
| "run_takes s (k # ks) =
     (let (s1, b) = take_use s k; (s2, bs) = run_takes s1 ks in (s2, b # bs))"

definition granted :: "string \<Rightarrow> string list \<Rightarrow> bool list \<Rightarrow> nat" where
  "granted k ks bs = length (filter (\<lambda>(j, b). j = k \<and> b) (zip ks bs))"

lemma granted_min:
  "good s \<Longrightarrow> run_takes s ks = (s', bs) \<Longrightarrow>
     granted k ks bs = min (uses s k) (count_list ks k) \<and> uses s' k = uses s k - count_list ks k"
proof (induction ks arbitrary: s s' bs)
  case (Cons j ks)
  obtain s1 b where t: "take_use s j = (s1, b)" by fastforce
  obtain s2 cs where r: "run_takes s1 ks = (s2, cs)" by fastforce
  have u: "uses s1 k = (if k = j then uses s j - 1 else uses s k)" "b \<longleftrightarrow> 0 < uses s j" "good s1"
    using take_uses [OF Cons.prems(1), of j k] take_ok [OF Cons.prems(1), of j] take_good [OF Cons.prems(1), of j] t by simp_all
  from Cons.prems(2) t r have e: "s' = s2" "bs = b # cs" by simp_all
  show ?case
    using Cons.IH [OF u(3) r] u(1,2) by (auto simp: e granted_def)
qed (simp add: granted_def)

end

subsection \<open>The invite file is such a ledger\<close>

definition manager_uses :: "InviteTokenManager \<Rightarrow> string \<Rightarrow> nat" where
  "manager_uses m k = (case map_of m k of None \<Rightarrow> 0 | Some t \<Rightarrow> unat (uses_remaining t))"

text \<open>A manager stores every token under its value.\<close>

definition manager_wf :: "InviteTokenManager \<Rightarrow> bool" where
  "manager_wf m \<longleftrightarrow> distinct (keys m) \<and> (\<forall>k t. map_of m k = Some t \<longrightarrow> it_token t = k)"

lemma manager_wf_Nil [simp]: "manager_wf []" by (simp add: manager_wf_def)

lemma manager_wf_insert: "manager_wf m \<Longrightarrow> manager_wf (hm_insert (it_token t) t m)"
  by (auto simp: manager_wf_def)

lemma foldl_tokens_wf:
  "manager_wf m \<Longrightarrow> manager_wf (foldl (\<lambda>m t. hm_insert (it_token t) t m) m ts)"
  by (induction ts arbitrary: m) (simp_all add: manager_wf_insert)

lemma foldl_tokens_distinct:
  "distinct (keys m @ map it_token ts) \<Longrightarrow>
     map_of (foldl (\<lambda>m t. hm_insert (it_token t) t m) m ts) = map_of m ++ map_of (map (\<lambda>t. (it_token t, t)) ts)"
proof (induction ts arbitrary: m)
  case (Cons t ts)
  then have "distinct (keys (hm_insert (it_token t) t m) @ map it_token ts)"
    using keys_hm_insert [of "it_token t" t m] by auto
  moreover have "map_of (map (\<lambda>t. (it_token t, t)) ts) (it_token t) = None"
    using Cons.prems by (auto simp: map_of_eq_None_iff)
  ultimately show ?case
    using Cons.IH by (auto simp: map_add_def fun_eq_iff split: option.split)
qed simp

lemma from_tokens_wf: "manager_wf (from_tokens ts)"
  unfolding from_tokens_def by (rule foldl_tokens_wf) simp

text \<open>Writing a manager to the file and reading it back gives the same tokens.\<close>

lemma from_all_tokens:
  assumes "manager_wf m" shows "map_of (from_tokens (all_tokens m)) = map_of m"
proof -
  have t: "it_token t = k" if "(k, t) \<in> set m" for k t
    using assms that by (auto simp: manager_wf_def dest: map_of_is_SomeI)
  then have ks: "map (it_token \<circ> snd) m = keys m" and ps: "map (\<lambda>kt. (it_token (snd kt), snd kt)) m = m"
    by (auto intro!: map_idI)
  have "distinct (keys ([] :: InviteTokenManager) @ map it_token (all_tokens m))"
    using assms ks unfolding all_tokens_def manager_wf_def map_map by (simp del: map_eq_conv)
  from foldl_tokens_distinct [OF this] ps show ?thesis
    by (simp add: from_tokens_def all_tokens_def comp_def)
qed

lemma redeem_wf: "manager_wf m \<Longrightarrow> manager_wf (fst (redeem m v))"
  by (auto simp: redeem_def manager_wf_def Let_def simp del: map_of_eq_Some_iff split: option.split)

lemma redeem_uses:
  "manager_uses (fst (redeem m v)) k = (if k = v then manager_uses m v - 1 else manager_uses m k)"
  "is_ok (snd (redeem m v)) \<longleftrightarrow> 0 < manager_uses m v"
  by (auto simp: redeem_def manager_uses_def Let_def unat_minus_one unat_gt_0 split: option.split)

interpretation manager_ledger: use_ledger manager_uses "\<lambda>m v. map_prod id is_ok (redeem m v)" manager_wf
  by unfold_locales (simp_all add: redeem_uses redeem_wf)

definition file_uses :: "invites_file \<Rightarrow> string \<Rightarrow> nat" where
  "file_uses f k = (case load_manager f of Inl e \<Rightarrow> 0 | Inr m \<Rightarrow> manager_uses m k)"

definition file_good :: "'a disk_file \<Rightarrow> bool" where
  "file_good f \<longleftrightarrow> df_content f \<noteq> Unreadable \<and> df_writable f"

definition redeemed_from :: "invites_file \<Rightarrow> string \<Rightarrow> invites_file \<times> bool" where
  "redeemed_from f k = map_prod id (\<lambda>r. r = Ok True) (redeem_invite_token f k)"

lemma load_good: "file_good f \<Longrightarrow> \<exists>v. load_doc d f = Ok v"
  by (cases "df_content f") (simp_all add: file_good_def load_doc_def)

lemma load_written: "load_doc d (f\<lparr> df_content := Content v \<rparr>) = Ok v"
  by (simp add: load_doc_def)

lemma manager_uses_cong: "map_of m = map_of m' \<Longrightarrow> manager_uses m k = manager_uses m' k"
  by (simp add: manager_uses_def)

lemma redeemed_from_laws:
  assumes "file_good f"
  shows "snd (redeemed_from f k) \<longleftrightarrow> 0 < file_uses f k"
    and "file_uses (fst (redeemed_from f k)) j = (if j = k then file_uses f k - 1 else file_uses f j)"
    and "file_good (fst (redeemed_from f k))"
proof -
  obtain ts where ts: "load_doc [] f = Ok ts" using load_good [OF assms] by blast
  let ?m = "from_tokens ts" let ?m' = "fst (redeem ?m k)"
  have u: "file_uses f i = manager_uses ?m i" for i by (simp add: file_uses_def load_manager_def ts)
  have w: "df_writable f" using assms by (simp add: file_good_def)
  have reread: "manager_uses (from_tokens (all_tokens ?m')) i = manager_uses ?m' i" for i
    by (intro manager_uses_cong from_all_tokens redeem_wf from_tokens_wf)
  have eq: "redeemed_from f k =
      (if is_ok (snd (redeem ?m k)) then (f\<lparr> df_content := Content (all_tokens ?m') \<rparr>, True) else (f, False))"
    using w by (cases "redeem ?m k")
      (simp add: redeemed_from_def redeem_invite_token_def load_manager_def ts persist_manager_def write_doc_def)
  show "snd (redeemed_from f k) \<longleftrightarrow> 0 < file_uses f k"
    unfolding eq u using redeem_uses(2) [of ?m k] by simp
  show "file_good (fst (redeemed_from f k))" using assms by (simp add: eq file_good_def)
  have "\<not> is_ok (snd (redeem ?m k)) \<Longrightarrow> ?m' = ?m"
    by (auto simp: redeem_def Let_def split: option.splits if_splits)
  then show "file_uses (fst (redeemed_from f k)) j = (if j = k then file_uses f k - 1 else file_uses f j)"
    using redeem_uses(1) [of ?m k j] redeem_uses(2) [of ?m k]
    by (cases "is_ok (snd (redeem ?m k))")
      (simp_all add: eq ts reread file_uses_def load_manager_def load_written)
qed

interpretation file_ledger: use_ledger file_uses redeemed_from file_good
  by unfold_locales (simp_all add: redeemed_from_laws)

text \<open>A sequence of redemption requests, as the handshakes issue them one after the other.\<close>

fun redeem_seq :: "invites_file \<Rightarrow> string list \<Rightarrow> invites_file \<times> bool list" where
  "redeem_seq f [] = (f, [])"
| "redeem_seq f (k # ks) =
     (let (f1, r) = redeem_invite_token f k; (f2, rs) = redeem_seq f1 ks in (f2, (r = Ok True) # rs))"

lemma redeem_seq_run: "redeem_seq f ks = file_ledger.run_takes f ks"
  by (induction ks arbitrary: f)
    (simp_all add: redeemed_from_def map_prod_def Let_def split: prod.split)

text \<open>
  C20.  However redemption requests for invite tokens are ordered, a token with \<open>n\<close> uses left in
  a readable and writable invite file is granted exactly to the first \<open>n\<close> requests that
  name it: the number of grants is the smaller of \<open>n\<close> and the number of requests.
\<close>

theorem invite_grants_bounded:
  assumes "df_content f \<noteq> Unreadable" "df_writable f" "redeem_seq f ks = (f', grants)"
  shows "length (filter (\<lambda>(j, granted). j = k \<and> granted) (zip ks grants)) =
      min (file_uses f k) (count_list ks k) \<and>
    file_uses f' k = file_uses f k - count_list ks k"
  using file_ledger.granted_min [of f ks f' grants k] assms
  by (simp add: file_good_def redeem_seq_run file_ledger.granted_def)

theorem invite_grants_bounded_witness:
  "let f = \<lparr> df_content = Content [\<lparr> it_token = ''a'', it_expires_at = ''unix:0'', uses_remaining = 2 \<rparr>],
             df_writable = True \<rparr>
   in file_uses (fst (redeem_seq f [''a'', ''b'', ''a'', ''a''])) ''a'' = 0 \<and>
      file_uses f ''a'' = 2"
proof -
  let ?f = "\<lparr> df_content = Content [\<lparr> it_token = ''a'', it_expires_at = ''unix:0'', uses_remaining = 2 \<rparr>],
             df_writable = True \<rparr>"
  have u: "file_uses ?f ''a'' = 2"
    by (simp add: file_uses_def load_manager_def load_doc_def from_tokens_def manager_uses_def)
  obtain f' g where r: "redeem_seq ?f [''a'', ''b'', ''a'', ''a''] = (f', g)" by fastforce
  from invite_grants_bounded [OF _ _ r, of "''a''"] u show ?thesis
    unfolding Let_def r by simp
qed

subsection \<open>The store follows its file\<close>

definition file_keys :: "keys_file \<Rightarrow> string set" where
  "file_keys f = (case load_doc [] f of Inl e \<Rightarrow> {} | Inr ds \<Rightarrow> ad_public_key ` set ds)"

lemma dom_devices:
  "dom (map_of (foldl (\<lambda>m d. hm_insert (ad_public_key d) d m) m ds)) = ad_public_key ` set ds \<union> dom (map_of m)"
  by (induction ds arbitrary: m) auto

lemma store_reload_keys:
  assumes "df_content (ks_file s) \<noteq> Unreadable"
  shows "snd (store_reload s) = Ok ()" "ks_file (fst (store_reload s)) = ks_file s"
    and "is_authorized (fst (store_reload s)) k \<longleftrightarrow> k \<in> file_keys (ks_file s)"
proof -
  obtain ds where ds: "load_doc [] (ks_file s) = Ok ds"
    using assms by (cases "df_content (ks_file s)") (simp_all add: load_doc_def)
  let ?m = "foldl (\<lambda>m d. hm_insert (ad_public_key d) d m) [] ds"
  have r: "store_reload s = (s\<lparr> ks_devices := ?m \<rparr>, Ok ())"
    by (simp add: store_reload_def load_devices_map_def ds)
  show "snd (store_reload s) = Ok ()" "ks_file (fst (store_reload s)) = ks_file s" by (simp_all add: r)
  have "k \<in> dom (map_of ?m) \<longleftrightarrow> k \<in> ad_public_key ` set ds" using dom_devices [of "[]" ds] by simp
  then show "is_authorized (fst (store_reload s)) k \<longleftrightarrow> k \<in> file_keys (ks_file s)"
    by (simp add: r is_authorized_def file_keys_def ds domIff)
qed

lemma authorize_device_key_keys:
  assumes "authorize_device_key f k = (f', Ok b)"
  shows "file_keys f' = insert k (file_keys f) \<and> df_content f' \<noteq> Unreadable \<and> (b \<longleftrightarrow> k \<notin> file_keys f)"
proof (cases "df_content f")
  case Unreadable
  with assms show ?thesis by (simp add: authorize_device_key_def load_doc_def)
next
  case Missing
  with assms show ?thesis
    by (auto simp: authorize_device_key_def load_doc_def write_doc_def file_keys_def Let_def split: if_splits)
next
  case (Content ds)
  with assms show ?thesis
    by (auto simp: authorize_device_key_def load_doc_def write_doc_def file_keys_def Let_def list_ex_iff
        split: if_splits)
qed



end
