(* ===== verification/Handshake.thy ===== *)
theory Handshake
  imports Auth
begin

text \<open>
  The challenge-response handshake: the server side of \<^verbatim>\<open>bonded-server/src/auth_handshake.rs\<close>
  over TCP, WebSocket and QUIC, and the client side of \<^verbatim>\<open>bonded-client/src/lib.rs\<close>.  A text
  channel carries the lines that are still to be read, the lines written so far, and how many
  more writes succeed; an exhausted input is a failed read.
\<close>

subsection \<open>Channels and messages\<close>

record text_chan =
  tc_in :: "string list"
  tc_out :: "string list"
  tc_budget :: nat

definition chan_recv :: "text_chan \<Rightarrow> (string \<times> text_chan) option" where
  "chan_recv ch = (case tc_in ch of [] \<Rightarrow> None | l # ls \<Rightarrow> Some (l, ch\<lparr> tc_in := ls \<rparr>))"

definition chan_send :: "string \<Rightarrow> text_chan \<Rightarrow> text_chan option" where
  "chan_send s ch =
     (case tc_budget ch of
        0 \<Rightarrow> None
      | Suc n \<Rightarrow> Some (ch\<lparr> tc_out := tc_out ch @ [s], tc_budget := n \<rparr>))"

record ClientHello =
  ch_public_key_b64 :: string
  ch_invite_token :: string

definition decode_hello :: "json \<Rightarrow> ClientHello option" where
  "decode_hello v =
     (case serde_fields [''public_key_b64'', ''invite_token''] v of
        Some [pk, tok] \<Rightarrow>
          (case (str_field pk, str_field_default tok) of
             (Some p, Some t) \<Rightarrow> Some \<lparr> ch_public_key_b64 = p, ch_invite_token = t \<rparr>
           | _ \<Rightarrow> None)
      | _ \<Rightarrow> None)"

text \<open>A struct with one \<^verbatim>\<open>String\<close> field: \<^verbatim>\<open>ServerChallenge\<close>, \<^verbatim>\<open>ClientProof\<close>, \<^verbatim>\<open>ServerAuthResult\<close>.\<close>

definition decode_single :: "string \<Rightarrow> json \<Rightarrow> string option" where
  "decode_single k v = (case serde_fields [k] v of Some [x] \<Rightarrow> str_field x | _ \<Rightarrow> None)"

definition server_challenge :: "string \<Rightarrow> json" where
  "server_challenge c = JObj [(''challenge_b64'', JStr c)]"

definition server_auth_result :: "string \<Rightarrow> json" where
  "server_auth_result st = JObj [(''status'', JStr st)]"

text \<open>The two ways a message is written: a line of its own over TCP, a text message otherwise.\<close>

definition send_json_line :: "json_codec \<Rightarrow> json \<Rightarrow> text_chan \<Rightarrow> text_chan option" where
  "send_json_line js v ch = chan_send (json_print js v @ [CHR 0x0A]) ch"

definition send_json_text :: "json_codec \<Rightarrow> json \<Rightarrow> text_chan \<Rightarrow> text_chan option" where
  "send_json_text js v ch = chan_send (json_print js v) ch"

definition parse_line :: "json_codec \<Rightarrow> string \<Rightarrow> json option" where
  "parse_line js line = json_parse js (trim_end line)"

subsection \<open>Server\<close>

record auth_server =
  as_store :: AuthorizedKeysStore
  as_invites :: invites_file

datatype HandshakeError =
    HelloUnreadable | HelloInvalid | RedeemFailed IoError | PersistFailed IoError | ReloadFailed IoError
  | NotAuthorized | SendFailed | ProofUnreadable | ProofInvalid | ProofRejected AuthError

text \<open>
  The decision on a hello: a key that is not authorized needs an invite, which authorizes
  the key on disk and in the store.
\<close>

definition admit_hello :: "auth_server \<Rightarrow> ClientHello \<Rightarrow> auth_server \<times> (HandshakeError, bool) res" where
  "admit_hello srv hello =
     (if is_authorized (as_store srv) (ch_public_key_b64 hello) then (srv, Ok True)
      else
        let (inv, redeemed) =
              (if trim (ch_invite_token hello) = [] then (as_invites srv, Ok False)
               else redeem_invite_token (as_invites srv) (ch_invite_token hello));
            srv = srv\<lparr> as_invites := inv \<rparr>
        in case redeemed of
             Inl e \<Rightarrow> (srv, Err (RedeemFailed e))
           | Inr False \<Rightarrow> (srv, Ok False)
           | Inr True \<Rightarrow>
               let (f, added) = authorize_device_key (ks_file (as_store srv)) (ch_public_key_b64 hello);
                   srv = srv\<lparr> as_store := (as_store srv)\<lparr> ks_file := f \<rparr> \<rparr>
               in case added of
                    Inl e \<Rightarrow> (srv, Err (PersistFailed e))
                  | Inr _ \<Rightarrow>
                      let (store, r) = store_reload (as_store srv);
                          srv = srv\<lparr> as_store := store \<rparr>
                      in case r of
                           Inl e \<Rightarrow> (srv, Err (ReloadFailed e))
                         | Inr _ \<Rightarrow> (srv, Ok True))"

definition check_proof ::
  "crypto \<Rightarrow> json_codec \<Rightarrow> (json \<Rightarrow> text_chan \<Rightarrow> text_chan option) \<Rightarrow> string \<Rightarrow> string \<Rightarrow> text_chan
   \<Rightarrow> text_chan \<times> (HandshakeError, string) res" where
  "check_proof cr js send key challenge ch =
     (case send (server_challenge challenge) ch of
        None \<Rightarrow> (ch, Err SendFailed)
      | Some ch1 \<Rightarrow>
          (case chan_recv ch1 of
             None \<Rightarrow> (ch1, Err ProofUnreadable)
           | Some (line, ch2) \<Rightarrow>
               (case Option.bind (parse_line js line) (decode_single ''signature_b64'') of
                  None \<Rightarrow> (ch2, Err ProofInvalid)
                | Some signature \<Rightarrow>
                    (case verify_auth_challenge cr key challenge signature of
                       Inl e \<Rightarrow> (ch2, Err (ProofRejected e))
                     | Inr _ \<Rightarrow>
                         (case send (server_auth_result ''ok'') ch2 of
                            None \<Rightarrow> (ch2, Err SendFailed)
                          | Some ch3 \<Rightarrow> (ch3, Ok key))))))"

definition serve_hello ::
  "crypto \<Rightarrow> json_codec \<Rightarrow> (json \<Rightarrow> text_chan \<Rightarrow> text_chan option) \<Rightarrow> bytes \<Rightarrow> auth_server \<Rightarrow> ClientHello \<Rightarrow> text_chan
   \<Rightarrow> auth_server \<times> text_chan \<times> (HandshakeError, string) res" where
  "serve_hello cr js send raw srv hello ch =
     (case admit_hello srv hello of
        (srv', Inl e) \<Rightarrow> (srv', ch, Err e)
      | (srv', Inr False) \<Rightarrow>
          (case send (server_auth_result ''unauthorized'') ch of
             None \<Rightarrow> (srv', ch, Err SendFailed)
           | Some ch' \<Rightarrow> (srv', ch', Err NotAuthorized))
      | (srv', Inr True) \<Rightarrow>
          (let (ch', r) = check_proof cr js send (ch_public_key_b64 hello) (create_auth_challenge cr raw) ch
           in (srv', ch', r)))"

definition perform_auth_handshake ::
  "crypto \<Rightarrow> json_codec \<Rightarrow> bytes \<Rightarrow> auth_server \<Rightarrow> text_chan \<Rightarrow> auth_server \<times> text_chan \<times> (HandshakeError, string) res" where
  "perform_auth_handshake cr js raw srv ch =
     (case chan_recv ch of
        None \<Rightarrow> (srv, ch, Err HelloUnreadable)
      | Some (line, ch1) \<Rightarrow>
          (case Option.bind (parse_line js line) decode_hello of
             None \<Rightarrow> (srv, ch1, Err HelloInvalid)
           | Some hello \<Rightarrow> serve_hello cr js (send_json_line js) raw srv hello ch1))"

definition perform_websocket_auth_handshake ::
  "crypto \<Rightarrow> json_codec \<Rightarrow> bytes \<Rightarrow> auth_server \<Rightarrow> text_chan \<Rightarrow> auth_server \<times> text_chan \<times> (HandshakeError, string) res" where
  "perform_websocket_auth_handshake cr js raw srv ch =
     (case chan_recv ch of
        None \<Rightarrow> (srv, ch, Err HelloUnreadable)
      | Some (line, ch1) \<Rightarrow>
          (case Option.bind (parse_line js line) decode_hello of
             None \<Rightarrow> (srv, ch1, Err HelloInvalid)
           | Some hello \<Rightarrow> serve_hello cr js (send_json_text js) raw srv hello ch1))"

definition perform_quic_auth_handshake ::
  "crypto \<Rightarrow> json_codec \<Rightarrow> bytes \<Rightarrow> auth_server \<Rightarrow> text_chan \<Rightarrow> auth_server \<times> text_chan \<times> (HandshakeError, string) res" where
  "perform_quic_auth_handshake cr js raw srv ch =
     (case chan_recv ch of
        None \<Rightarrow> (srv, ch, Err HelloUnreadable)
      | Some (line, ch1) \<Rightarrow>
          (case Option.bind (parse_line js line) decode_hello of
             None \<Rightarrow> (srv, ch1, Err HelloInvalid)
           | Some hello \<Rightarrow> serve_hello cr js (send_json_text js) raw srv hello ch1))"

subsection \<open>Client\<close>

datatype ClientAuthError =
    ClientSendFailed | ClientReadFailed | ClientBadJson | ClientRejected string | ClientBadChallenge
  | ClientSignFailed AuthError | ClientBadResult

definition client_hello :: "DeviceKeypair \<Rightarrow> string \<Rightarrow> json" where
  "client_hello kp invite =
     json_object [(''public_key_b64'', JStr (public_key_b64 kp)), (''invite_token'', JStr invite)]"

definition client_proof :: "string \<Rightarrow> json" where
  "client_proof signature = JObj [(''signature_b64'', JStr signature)]"

definition client_finish :: "json_codec \<Rightarrow> text_chan \<Rightarrow> text_chan \<times> (ClientAuthError, unit) res" where
  "client_finish js ch =
     (case chan_recv ch of
        None \<Rightarrow> (ch, Err ClientReadFailed)
      | Some (line, ch1) \<Rightarrow>
          (case Option.bind (parse_line js line) (decode_single ''status'') of
             None \<Rightarrow> (ch1, Err ClientBadResult)
           | Some status \<Rightarrow> (ch1, if status \<noteq> ''ok'' then Err (ClientRejected status) else Ok ())))"

definition client_answer ::
  "crypto \<Rightarrow> json_codec \<Rightarrow> (json \<Rightarrow> text_chan \<Rightarrow> text_chan option) \<Rightarrow> DeviceKeypair \<Rightarrow> text_chan
   \<Rightarrow> text_chan \<times> (ClientAuthError, unit) res" where
  "client_answer cr js send kp ch =
     (case chan_recv ch of
        None \<Rightarrow> (ch, Err ClientReadFailed)
      | Some (line, ch1) \<Rightarrow>
          (case parse_line js line of
             None \<Rightarrow> (ch1, Err ClientBadJson)
           | Some v \<Rightarrow>
               (case get_str ''status'' v of
                  Some status \<Rightarrow> (ch1, Err (ClientRejected status))
                | None \<Rightarrow>
                    (case decode_single ''challenge_b64'' v of
                       None \<Rightarrow> (ch1, Err ClientBadChallenge)
                     | Some challenge \<Rightarrow>
                         (case sign_auth_challenge cr kp challenge of
                            Inl e \<Rightarrow> (ch1, Err (ClientSignFailed e))
                          | Inr signature \<Rightarrow>
                              (case send (client_proof signature) ch1 of
                                 None \<Rightarrow> (ch1, Err ClientSendFailed)
                               | Some ch2 \<Rightarrow> client_finish js ch2))))))"

definition client_auth_handshake ::
  "crypto \<Rightarrow> json_codec \<Rightarrow> DeviceKeypair \<Rightarrow> string \<Rightarrow> text_chan \<Rightarrow> text_chan \<times> (ClientAuthError, unit) res" where
  "client_auth_handshake cr js kp invite ch =
     (case send_json_line js (client_hello kp invite) ch of
        None \<Rightarrow> (ch, Err ClientSendFailed)
      | Some ch1 \<Rightarrow> client_answer cr js (send_json_line js) kp ch1)"

definition client_websocket_auth_handshake ::
  "crypto \<Rightarrow> json_codec \<Rightarrow> DeviceKeypair \<Rightarrow> string \<Rightarrow> text_chan \<Rightarrow> text_chan \<times> (ClientAuthError, unit) res" where
  "client_websocket_auth_handshake cr js kp invite ch =
     (case send_json_text js (client_hello kp invite) ch of
        None \<Rightarrow> (ch, Err ClientSendFailed)
      | Some ch1 \<Rightarrow> client_answer cr js (send_json_text js) kp ch1)"

definition client_quic_hello :: "DeviceKeypair \<Rightarrow> string \<Rightarrow> json" where
  "client_quic_hello kp invite =
     json_object [(''type'', JStr ''hello''), (''public_key'', JStr (public_key_b64 kp)), (''invite_token'', JStr invite)]"

definition client_quic_result :: "json_codec \<Rightarrow> text_chan \<Rightarrow> text_chan \<times> (ClientAuthError, unit) res" where
  "client_quic_result js ch =
     (case chan_recv ch of
        None \<Rightarrow> (ch, Err ClientReadFailed)
      | Some (line, ch1) \<Rightarrow>
          (case json_parse js (trim line) of
             None \<Rightarrow> (ch1, Err ClientBadJson)
           | Some v \<Rightarrow>
               (ch1, if get_str ''status'' v \<noteq> Some ''ok''
                     then Err (ClientRejected (case get_str ''message'' v of None \<Rightarrow> ''unknown error'' | Some m \<Rightarrow> m))
                     else Ok ())))"

definition client_quic_auth_handshake ::
  "crypto \<Rightarrow> json_codec \<Rightarrow> DeviceKeypair \<Rightarrow> string \<Rightarrow> text_chan \<Rightarrow> text_chan \<times> (ClientAuthError, unit) res" where
  "client_quic_auth_handshake cr js kp invite ch =
     (case send_json_text js (client_quic_hello kp invite) ch of
        None \<Rightarrow> (ch, Err ClientSendFailed)
      | Some ch1 \<Rightarrow>
          (case chan_recv ch1 of
             None \<Rightarrow> (ch1, Err ClientReadFailed)
           | Some (line, ch2) \<Rightarrow>
               (case json_parse js (trim line) of
                  None \<Rightarrow> (ch2, Err ClientBadJson)
                | Some v \<Rightarrow>
                    if get_str ''type'' v = Some ''error''
                    then (ch2, Err (ClientRejected (case get_str ''message'' v of None \<Rightarrow> ''unknown error'' | Some m \<Rightarrow> m)))
                    else
                      (case get_str ''challenge_b64'' v of
                         None \<Rightarrow> (ch2, Err ClientBadChallenge)
                       | Some challenge \<Rightarrow>
                           (case sign_auth_challenge cr kp challenge of
                              Inl e \<Rightarrow> (ch2, Err (ClientSignFailed e))
                            | Inr signature \<Rightarrow>
                                (case send_json_text js
                                        (json_object [(''type'', JStr ''auth_response''), (''signature_b64'', JStr signature)]) ch2 of
                                   None \<Rightarrow> (ch2, Err ClientSendFailed)
                                 | Some ch3 \<Rightarrow> client_quic_result js ch3))))))"

subsection \<open>What an admission means\<close>

lemma redeem_true_good: "redeem_invite_token f k = (f', Ok True) \<Longrightarrow> file_good f"
  by (auto simp: redeem_invite_token_def load_manager_def load_doc_def persist_manager_def write_doc_def
      file_good_def Let_def split: sum.splits prod.splits if_splits file_state.splits)

lemma redeem_true_uses:
  assumes "redeem_invite_token f k = (f', Ok True)"
  shows "0 < file_uses f k \<and> file_uses f' k = file_uses f k - 1 \<and> (\<forall>j. j \<noteq> k \<longrightarrow> file_uses f' j = file_uses f j)"
proof -
  have "redeemed_from f k = (f', True)" using assms by (simp add: redeemed_from_def)
  with redeemed_from_laws [OF redeem_true_good [OF assms], of k] show ?thesis by simp
qed

text \<open>How a key that was not authorized became so: one use of the invite it named was spent.\<close>

definition admitted_by_invite :: "auth_server \<Rightarrow> ClientHello \<Rightarrow> auth_server \<Rightarrow> bool" where
  "admitted_by_invite srv hello srv' \<longleftrightarrow>
     trim (ch_invite_token hello) \<noteq> [] \<and>
     0 < file_uses (as_invites srv) (ch_invite_token hello) \<and>
     file_uses (as_invites srv') (ch_invite_token hello) =
       file_uses (as_invites srv) (ch_invite_token hello) - 1"

lemma admit_hello_cases:
  assumes "admit_hello srv hello = (srv', Ok True)"
  shows "is_authorized (as_store srv') (ch_public_key_b64 hello)"
    and "is_authorized (as_store srv) (ch_public_key_b64 hello) \<and> srv' = srv \<or>
      \<not> is_authorized (as_store srv) (ch_public_key_b64 hello) \<and> admitted_by_invite srv hello srv'"
proof -
  let ?k = "ch_public_key_b64 hello" and ?t = "ch_invite_token hello"
  have "is_authorized (as_store srv') ?k \<and>
    (is_authorized (as_store srv) ?k \<and> srv' = srv \<or>
     \<not> is_authorized (as_store srv) ?k \<and> admitted_by_invite srv hello srv')"
  proof (cases "is_authorized (as_store srv) ?k")
    case True
    with assms show ?thesis by (simp add: admit_hello_def)
  next
    case False
    with assms have t: "trim ?t \<noteq> []" by (auto simp: admit_hello_def)
    obtain inv r where inv: "redeem_invite_token (as_invites srv) ?t = (inv, r)" by fastforce
    have r: "r = Ok True"
      using assms False t inv by (cases r) (auto simp: admit_hello_def Let_def split: bool.splits)
    obtain f b where f: "authorize_device_key (ks_file (as_store srv)) ?k = (f, Ok b)"
      using assms False t inv r
      by (cases "authorize_device_key (ks_file (as_store srv)) ?k")
        (auto simp: admit_hello_def Let_def split: sum.splits prod.splits)
    let ?s = "(as_store srv)\<lparr> ks_file := f \<rparr>"
    note keys = authorize_device_key_keys [OF f]
    have ok: "snd (store_reload ?s) = Ok ()" using store_reload_keys(1) [of ?s] keys by simp
    have "srv' = srv\<lparr> as_invites := inv, as_store := fst (store_reload ?s) \<rparr>"
      using assms False t inv r f ok
      by (cases "store_reload ?s") (simp add: admit_hello_def Let_def)
    then have "as_store srv' = fst (store_reload ?s)" "as_invites srv' = inv" by simp_all
    moreover have "is_authorized (fst (store_reload ?s)) ?k"
      using store_reload_keys(3) [of ?s ?k] keys by simp
    ultimately show ?thesis
      using redeem_true_uses [of "as_invites srv" ?t inv] inv r t False
      by (simp add: admitted_by_invite_def)
  qed
  then show "is_authorized (as_store srv') ?k"
    "is_authorized (as_store srv) ?k \<and> srv' = srv \<or>
      \<not> is_authorized (as_store srv) ?k \<and> admitted_by_invite srv hello srv'"
    by auto
qed

lemma check_proof_ok:
  assumes "check_proof cr js send key challenge ch = (ch', Ok k)"
  shows "k = key \<and> (\<exists>signature. verify_auth_challenge cr key challenge signature = Ok ())"
  using assms by (auto simp: check_proof_def split: option.splits prod.splits sum.splits)

lemma serve_hello_ok:
  assumes "serve_hello cr js send raw srv hello ch = (srv', ch', Ok key)"
  shows "admit_hello srv hello = (srv', Ok True) \<and> key = ch_public_key_b64 hello \<and>
    (\<exists>signature. verify_auth_challenge cr key (create_auth_challenge cr raw) signature = Ok ())"
  using assms
  by (auto simp: serve_hello_def Let_def dest!: check_proof_ok
      split: prod.splits sum.splits bool.splits option.splits)

text \<open>Concrete keys and servers for the witnesses.\<close>

definition demo_key :: bytes where "demo_key = replicate 32 7"

definition demo_pair :: DeviceKeypair where "demo_pair = from_signing_key plain_crypto demo_key"

definition demo_server :: auth_server where
  "demo_server =
     \<lparr> as_store = \<lparr> ks_file = \<lparr> df_content = Content [], df_writable = True \<rparr>,
                    ks_devices = [(public_key_b64 demo_pair,
                      \<lparr> ad_device_id = ''d'', ad_public_key = public_key_b64 demo_pair, ad_added_at = None \<rparr>)] \<rparr>,
       as_invites = \<lparr> df_content = Content [\<lparr> it_token = ''inv'', it_expires_at = ''unix:0'', uses_remaining = 1 \<rparr>],
                      df_writable = True \<rparr> \<rparr>"

lemma demo_authorized: "is_authorized (as_store demo_server) (public_key_b64 demo_pair)"
  by (simp add: demo_server_def is_authorized_def)

lemma demo_length: "length demo_key = 32" by (simp add: demo_key_def)


subsection \<open>Honest runs\<close>

lemma decode_own_messages [simp]:
  "decode_hello (client_hello kp invite) = Some \<lparr> ch_public_key_b64 = public_key_b64 kp, ch_invite_token = invite \<rparr>"
  "decode_single ''signature_b64'' (client_proof sg) = Some sg"
  "decode_single ''challenge_b64'' (server_challenge c) = Some c"
  "decode_single ''status'' (server_auth_result st) = Some st"
  "get_str ''status'' (server_challenge c) = None"
  "get_str ''status'' (server_auth_result st) = Some st"
  by (simp add: decode_hello_def client_hello_def)
    (simp_all add: decode_single_def client_proof_def server_challenge_def server_auth_result_def serde_fields_def get_str_def)

text \<open>A way of writing messages whose lines read back as the message.\<close>

definition faithful_send :: "json_codec \<Rightarrow> (json \<Rightarrow> text_chan \<Rightarrow> text_chan option) \<Rightarrow> (json \<Rightarrow> string) \<Rightarrow> bool" where
  "faithful_send js send line \<longleftrightarrow>
     (\<forall>v ch. send v ch = chan_send (line v) ch) \<and> (\<forall>v. parse_line js (line v) = Some v)"

lemma faithful_line: "json_ok js \<Longrightarrow> faithful_send js (send_json_line js) (\<lambda>v. json_print js v @ [CHR 0x0A])"
  by (simp add: faithful_send_def send_json_line_def parse_line_def json_okD)

lemma faithful_text: "json_ok js \<Longrightarrow> faithful_send js (send_json_text js) (json_print js)"
  by (simp add: faithful_send_def send_json_text_def parse_line_def json_okD)

lemma honest_server:
  assumes "faithful_send js send line" "admit_hello srv hello = (srv', Ok True)"
    and "verify_auth_challenge cr (ch_public_key_b64 hello) (create_auth_challenge cr raw) sg = Ok ()"
  shows "serve_hello cr js send raw srv hello \<lparr> tc_in = [line (client_proof sg)], tc_out = [], tc_budget = 2 \<rparr> =
    (srv', \<lparr> tc_in = [], tc_out = [line (server_challenge (create_auth_challenge cr raw)),
                                   line (server_auth_result ''ok'')], tc_budget = 0 \<rparr>,
     Ok (ch_public_key_b64 hello))"
  using assms
  by (simp add: serve_hello_def check_proof_def faithful_send_def chan_send_def chan_recv_def numeral_2_eq_2)

lemma honest_client:
  assumes "faithful_send js send line" "sign_auth_challenge cr kp c = Ok sg"
  shows "client_answer cr js send kp
      \<lparr> tc_in = [line (server_challenge c), line (server_auth_result ''ok'')], tc_out = out, tc_budget = 1 \<rparr> =
    (\<lparr> tc_in = [], tc_out = out @ [line (client_proof sg)], tc_budget = 0 \<rparr>, Ok ())"
  using assms
  by (simp add: client_answer_def client_finish_def faithful_send_def chan_send_def chan_recv_def)

lemma honest_tcp_server:
  assumes "crypto_ok cr" "json_ok js" "length k = 32" "kp = from_signing_key cr k"
    and "is_authorized (as_store srv) (public_key_b64 kp)"
  shows "\<exists>ch ch'. perform_auth_handshake cr js raw srv ch = (srv, ch', Ok (public_key_b64 kp))"
proof -
  let ?hello = "\<lparr> ch_public_key_b64 = public_key_b64 kp, ch_invite_token = [] \<rparr>"
  obtain sg where sg: "verify_auth_challenge cr (ch_public_key_b64 ?hello) (create_auth_challenge cr raw) sg = Ok ()"
    using sign_then_verify [OF assms(1,3,4)] by auto
  have adm: "admit_hello srv ?hello = (srv, Ok True)" using assms(5) by (simp add: admit_hello_def)
  let ?l = "\<lambda>v. json_print js v @ [CHR 0x0A]"
  have "perform_auth_handshake cr js raw srv
        \<lparr> tc_in = [?l (client_hello kp []), ?l (client_proof sg)], tc_out = [], tc_budget = 2 \<rparr> =
      (srv, \<lparr> tc_in = [], tc_out = [?l (server_challenge (create_auth_challenge cr raw)), ?l (server_auth_result ''ok'')],
              tc_budget = 0 \<rparr>, Ok (public_key_b64 kp))"
    using honest_server [OF faithful_line [OF assms(2)] adm sg] faithful_line [OF assms(2)]
    by (simp add: perform_auth_handshake_def chan_recv_def faithful_send_def)
  then show ?thesis by blast
qed


text \<open>
  C19.  A client that owns an authorized key always gets through: over TCP and over WebSocket the
  lines which its handshake writes make the server's handshake succeed for its key without
  changing the server, and the lines the server writes make the client's succeed.
\<close>

theorem handshake_complete:
  assumes "crypto_ok cr" "json_ok js" "length k = 32" "kp = from_signing_key cr k"
    and "is_authorized (as_store srv) (public_key_b64 kp)"
  shows "(\<exists>hello proof challenge result ch1 ch2.
      perform_auth_handshake cr js raw srv \<lparr> tc_in = [hello, proof], tc_out = [], tc_budget = 2 \<rparr> =
        (srv, ch1, Ok (public_key_b64 kp)) \<and> tc_out ch1 = [challenge, result] \<and>
      client_auth_handshake cr js kp invite \<lparr> tc_in = [challenge, result], tc_out = [], tc_budget = 2 \<rparr> =
        (ch2, Ok ()) \<and> tc_out ch2 = [hello, proof]) \<and>
    (\<exists>hello proof challenge result ch1 ch2.
      perform_websocket_auth_handshake cr js raw srv \<lparr> tc_in = [hello, proof], tc_out = [], tc_budget = 2 \<rparr> =
        (srv, ch1, Ok (public_key_b64 kp)) \<and> tc_out ch1 = [challenge, result] \<and>
      client_websocket_auth_handshake cr js kp invite \<lparr> tc_in = [challenge, result], tc_out = [], tc_budget = 2 \<rparr> =
        (ch2, Ok ()) \<and> tc_out ch2 = [hello, proof])"
proof -
  let ?hello = "\<lparr> ch_public_key_b64 = public_key_b64 kp, ch_invite_token = invite \<rparr>"
  let ?c = "create_auth_challenge cr raw"
  obtain sg where sg: "sign_auth_challenge cr kp ?c = Ok sg"
      "verify_auth_challenge cr (ch_public_key_b64 ?hello) ?c sg = Ok ()"
    using sign_then_verify [OF assms(1,3,4)] by auto
  have adm: "admit_hello srv ?hello = (srv, Ok True)" using assms(5) by (simp add: admit_hello_def)
  note tcp = faithful_line [OF assms(2)] and ws = faithful_text [OF assms(2)]
  let ?l = "\<lambda>v. json_print js v @ [CHR 0x0A]" and ?t = "json_print js"
  have "perform_auth_handshake cr js raw srv
        \<lparr> tc_in = [?l (client_hello kp invite), ?l (client_proof sg)], tc_out = [], tc_budget = 2 \<rparr> =
      (srv, \<lparr> tc_in = [], tc_out = [?l (server_challenge ?c), ?l (server_auth_result ''ok'')], tc_budget = 0 \<rparr>,
       Ok (public_key_b64 kp))"
    using honest_server [OF tcp adm sg(2)] tcp
    by (simp add: perform_auth_handshake_def chan_recv_def faithful_send_def)
  moreover have "perform_websocket_auth_handshake cr js raw srv
        \<lparr> tc_in = [?t (client_hello kp invite), ?t (client_proof sg)], tc_out = [], tc_budget = 2 \<rparr> =
      (srv, \<lparr> tc_in = [], tc_out = [?t (server_challenge ?c), ?t (server_auth_result ''ok'')], tc_budget = 0 \<rparr>,
       Ok (public_key_b64 kp))"
    using honest_server [OF ws adm sg(2)] ws
    by (simp add: perform_websocket_auth_handshake_def chan_recv_def faithful_send_def)
  moreover have "client_auth_handshake cr js kp invite
        \<lparr> tc_in = [?l (server_challenge ?c), ?l (server_auth_result ''ok'')], tc_out = [], tc_budget = 2 \<rparr> =
      (\<lparr> tc_in = [], tc_out = [?l (client_hello kp invite), ?l (client_proof sg)], tc_budget = 0 \<rparr>, Ok ())"
    using honest_client [OF tcp sg(1)] tcp
    by (simp add: client_auth_handshake_def faithful_send_def chan_send_def numeral_2_eq_2)
  moreover have "client_websocket_auth_handshake cr js kp invite
        \<lparr> tc_in = [?t (server_challenge ?c), ?t (server_auth_result ''ok'')], tc_out = [], tc_budget = 2 \<rparr> =
      (\<lparr> tc_in = [], tc_out = [?t (client_hello kp invite), ?t (client_proof sg)], tc_budget = 0 \<rparr>, Ok ())"
    using honest_client [OF ws sg(1)] ws
    by (simp add: client_websocket_auth_handshake_def faithful_send_def chan_send_def numeral_2_eq_2)
  ultimately show ?thesis by fastforce
qed

theorem handshake_complete_witness:
  "\<exists>hello proof ch1. perform_auth_handshake plain_crypto numbering_codec [1, 2, 3] demo_server
      \<lparr> tc_in = [hello, proof], tc_out = [], tc_budget = 2 \<rparr> = (demo_server, ch1, Ok (public_key_b64 demo_pair))"
  using handshake_complete [OF plain_crypto_ok numbering_codec_ok demo_length demo_pair_def demo_authorized] by blast



text \<open>
  C23.  An invite is spent, and the key in the hello is authorized on disk and in the store, before
  the client has proved possession of the key: a client that names a usable invite and then
  sends no valid proof is turned away, but its key stays authorized.
\<close>

theorem invite_spent_before_proof:
  assumes "admit_hello srv hello = (srv', Ok True)"
    and "\<not> is_authorized (as_store srv) (ch_public_key_b64 hello)"
    and "parse_line js proof = Some (client_proof signature)"
    and "verify_auth_challenge cr (ch_public_key_b64 hello) (create_auth_challenge cr raw) signature = Err e"
  shows "\<exists>ch'. serve_hello cr js (send_json_line js) raw srv hello
        \<lparr> tc_in = [proof], tc_out = [], tc_budget = 2 \<rparr> = (srv', ch', Err (ProofRejected e)) \<and>
    is_authorized (as_store srv') (ch_public_key_b64 hello) \<and> admitted_by_invite srv hello srv'"
  using assms admit_hello_cases [OF assms(1)]
  by (auto simp: serve_hello_def check_proof_def send_json_line_def chan_send_def chan_recv_def numeral_2_eq_2)

theorem invite_spent_before_proof_witness:
  "\<exists>srv'. is_authorized (as_store srv') ''k'' \<and> \<not> is_authorized (as_store demo_server) ''k'' \<and>
     file_uses (as_invites demo_server) ''inv'' = 1 \<and> file_uses (as_invites srv') ''inv'' = 0 \<and>
     (\<exists>ch ch' e. serve_hello plain_crypto numbering_codec (send_json_line numbering_codec) [1] demo_server
        \<lparr> ch_public_key_b64 = ''k'', ch_invite_token = ''inv'' \<rparr> ch = (srv', ch', Err (ProofRejected e)))"
proof -
  let ?h = "\<lparr> ch_public_key_b64 = ''k'', ch_invite_token = ''inv'' \<rparr>"
  let ?d = "\<lparr> ad_device_id = ''device-k'', ad_public_key = ''k'', ad_added_at = None \<rparr>"
  have t: "trim ''inv'' = ''inv''" by (simp add: trim_def trim_start_def trim_end_def is_white_def)
  have len: "length (public_key_b64 demo_pair) = 32"
    by (simp add: demo_pair_def from_signing_key_def plain_crypto_def demo_length)
  then have "public_key_b64 demo_pair \<noteq> ''k''" by (metis One_nat_def length_Cons list.size(3) numeral_One numeral_eq_iff num.distinct(1))
  then have un: "\<not> is_authorized (as_store demo_server) ''k''"
    by (auto simp: demo_server_def is_authorized_def)
  have "admit_hello demo_server ?h =
      (demo_server\<lparr> as_invites := \<lparr> df_content = Content [\<lparr> it_token = ''inv'', it_expires_at = ''unix:0'', uses_remaining = 0 \<rparr>],
                                   df_writable = True \<rparr>,
                     as_store := \<lparr> ks_file = \<lparr> df_content = Content [?d], df_writable = True \<rparr>, ks_devices = [(''k'', ?d)] \<rparr> \<rparr>,
       Ok True)"
    using un t
    by (simp add: admit_hello_def redeem_invite_token_def load_manager_def load_doc_def from_tokens_def redeem_def
        persist_manager_def write_doc_def all_tokens_def authorize_device_key_def store_reload_def load_devices_map_def
        demo_server_def Let_def)
  then obtain srv' where adm: "admit_hello demo_server ?h = (srv', Ok True)" by blast
  have v: "verify_auth_challenge plain_crypto ''k'' (create_auth_challenge plain_crypto [1]) [] = Err (InvalidPublicKeyLength 1)"
    by (simp add: verify_auth_challenge_def decode_public_key_def plain_crypto_def)
  have p: "parse_line numbering_codec (json_print numbering_codec (client_proof [])) = Some (client_proof [])"
    by (simp add: parse_line_def json_okD [OF numbering_codec_ok])
  have u: "file_uses (as_invites demo_server) ''inv'' = 1"
    by (simp add: demo_server_def file_uses_def load_manager_def load_doc_def from_tokens_def manager_uses_def)
  obtain ch' where r: "serve_hello plain_crypto numbering_codec (send_json_line numbering_codec) [1] demo_server ?h
        \<lparr> tc_in = [json_print numbering_codec (client_proof [])], tc_out = [], tc_budget = 2 \<rparr> =
      (srv', ch', Err (ProofRejected (InvalidPublicKeyLength 1)))"
    "is_authorized (as_store srv') ''k''" "admitted_by_invite demo_server ?h srv'"
    using invite_spent_before_proof [OF adm _ p, of plain_crypto "[1]" "InvalidPublicKeyLength 1"] un v by auto
  from r(3) u have "file_uses (as_invites srv') ''inv'' = 0" by (simp add: admitted_by_invite_def)
  with r(1,2) un u show ?thesis by blast
qed

end
