(* ===== verification/Registry.thy ===== *)
theory Registry
  imports Prelude
begin

text \<open>
  The session registry of the server (\<^verbatim>\<open>session_registry.rs\<close>): one session id per client key,
  handed out from a wrapping 64-bit counter.
\<close>

record SessionSnapshot =
  ss_client_key :: string
  ss_session_id :: u64

record SessionRegistry =
  sr_next_session_id :: u64
  sr_sessions_by_client :: "(string, u64) hmap"

definition registry_new :: SessionRegistry where
  "registry_new = \<lparr> sr_next_session_id = 0, sr_sessions_by_client = [] \<rparr>"

definition register_client :: "string \<Rightarrow> SessionRegistry \<Rightarrow> SessionRegistry \<times> u64" where
  "register_client key r =
     (case map_of (sr_sessions_by_client r) key of
        Some existing \<Rightarrow> (r, existing)
      | None \<Rightarrow>
          let session_id = sr_next_session_id r
          in (r\<lparr> sr_next_session_id := session_id + 1,
                 sr_sessions_by_client := hm_insert key session_id (sr_sessions_by_client r) \<rparr>, session_id))"

definition unregister_client :: "string \<Rightarrow> SessionRegistry \<Rightarrow> SessionRegistry" where
  "unregister_client key r = r\<lparr> sr_sessions_by_client := hm_remove key (sr_sessions_by_client r) \<rparr>"

definition contains_client :: "string \<Rightarrow> SessionRegistry \<Rightarrow> bool" where
  "contains_client key r \<longleftrightarrow> map_of (sr_sessions_by_client r) key \<noteq> None"

definition active_sessions :: "SessionRegistry \<Rightarrow> nat" where
  "active_sessions r = length (sr_sessions_by_client r)"

definition registry_snapshot :: "SessionRegistry \<Rightarrow> SessionSnapshot list" where
  "registry_snapshot r =
     map (\<lambda>(k, sid). \<lparr> ss_client_key = k, ss_session_id = sid \<rparr>) (sr_sessions_by_client r)"

subsection \<open>Histories\<close>

datatype registry_op = Register string | Unregister string

fun registry_step :: "SessionRegistry \<Rightarrow> registry_op \<Rightarrow> SessionRegistry" where
  "registry_step r (Register k) = fst (register_client k r)"
| "registry_step r (Unregister k) = unregister_client k r"

definition run_registry :: "registry_op list \<Rightarrow> SessionRegistry" where
  "run_registry ops = foldl registry_step registry_new ops"

subsection \<open>Abstract registry\<close>

text \<open>
  What the registry promises: session ids are natural numbers that are never handed out
  twice, and a client keeps its id as long as it is registered.
\<close>

record abs_registry =
  ar_next :: nat
  ar_ids :: "string \<rightharpoonup> nat"

fun abs_step :: "abs_registry \<Rightarrow> registry_op \<Rightarrow> abs_registry" where
  "abs_step a (Register k) =
     (case ar_ids a k of
        Some _ \<Rightarrow> a
      | None \<Rightarrow> a\<lparr> ar_next := Suc (ar_next a), ar_ids := (ar_ids a)(k \<mapsto> ar_next a) \<rparr>)"
| "abs_step a (Unregister k) = a\<lparr> ar_ids := (ar_ids a)(k := None) \<rparr>"

definition run_abs :: "registry_op list \<Rightarrow> abs_registry" where
  "run_abs ops = foldl abs_step \<lparr> ar_next = 0, ar_ids = Map.empty \<rparr> ops"

definition abs_inv :: "abs_registry \<Rightarrow> bool" where
  "abs_inv a \<longleftrightarrow> (\<forall>k n. ar_ids a k = Some n \<longrightarrow> n < ar_next a) \<and>
     (\<forall>k j n. ar_ids a k = Some n \<longrightarrow> ar_ids a j = Some n \<longrightarrow> k = j)"

definition registry_rel :: "SessionRegistry \<Rightarrow> abs_registry \<Rightarrow> bool" where
  "registry_rel r a \<longleftrightarrow> sr_next_session_id r = of_nat (ar_next a) \<and>
     (\<forall>k. map_of (sr_sessions_by_client r) k = map_option of_nat (ar_ids a k))"

lemma abs_step_inv: "abs_inv a \<Longrightarrow> abs_inv (abs_step a op)"
  by (cases op) (fastforce simp: abs_inv_def less_Suc_eq split: option.split if_splits)+

lemma registry_step_rel: "registry_rel r a \<Longrightarrow> registry_rel (registry_step r op) (abs_step a op)"
  by (cases op)
    (auto simp: registry_rel_def register_client_def unregister_client_def Let_def add.commute
      split: option.split)

lemma run_abs_inv: "abs_inv (run_abs ops)"
  unfolding run_abs_def
  by (induction ops rule: rev_induct) (simp_all add: abs_step_inv, simp add: abs_inv_def)

lemma run_registry_rel: "registry_rel (run_registry ops) (run_abs ops)"
  unfolding run_registry_def run_abs_def
  by (induction ops rule: rev_induct)
    (simp_all add: registry_step_rel, simp add: registry_rel_def registry_new_def)

lemma run_abs_next: "ar_next (run_abs ops) \<le> length ops"
proof (induction ops rule: rev_induct)
  case (snoc op ops)
  then show ?case by (cases op) (auto simp: run_abs_def split: option.split)
qed (simp add: run_abs_def)

text \<open>
  C24.  Every history of registrations refines the abstract registry, whose ids are unbounded and
  never reused: the counter and the ids are those numbers modulo \<open>2 ^ 64\<close>.  In a history of
  at most \<open>2 ^ 64\<close> operations two registered clients therefore never share a session id.
\<close>

theorem registry_refines:
  "registry_rel (run_registry ops) (run_abs ops) \<and>
   (length ops \<le> 2 ^ 64 \<longrightarrow>
      (\<forall>k j sid. map_of (sr_sessions_by_client (run_registry ops)) k = Some sid \<longrightarrow>
                 map_of (sr_sessions_by_client (run_registry ops)) j = Some sid \<longrightarrow> k = j))"
proof (intro conjI impI allI)
  show rel: "registry_rel (run_registry ops) (run_abs ops)" by (rule run_registry_rel)
  fix k j sid
  assume len: "length ops \<le> 2 ^ 64"
    and "map_of (sr_sessions_by_client (run_registry ops)) k = Some sid"
    "map_of (sr_sessions_by_client (run_registry ops)) j = Some sid"
  with rel obtain n m where n: "ar_ids (run_abs ops) k = Some n" "ar_ids (run_abs ops) j = Some m"
    "sid = of_nat n" "sid = of_nat m"
    by (auto simp: registry_rel_def)
  have "n < 2 ^ 64" "m < 2 ^ 64"
    using n run_abs_inv [of ops] run_abs_next [of ops] len unfolding abs_inv_def by (meson le_trans less_le_trans)+
  then have "unat (of_nat n :: u64) = n" "unat (of_nat m :: u64) = m"
    by (simp_all add: unat_of_nat_small)
  with n(3,4) have "n = m" by simp
  with n run_abs_inv [of ops] show "k = j" unfolding abs_inv_def by blast
qed

theorem registry_refines_witness:
  "map_of (sr_sessions_by_client (run_registry [Register ''a'', Register ''b'', Unregister ''a'', Register ''a''])) ''a'' = Some 2 \<and>
   registry_rel (run_registry [Register ''a'', Register ''b'', Unregister ''a'', Register ''a''])
     (run_abs [Register ''a'', Register ''b'', Unregister ''a'', Register ''a''])"
  using registry_refines [of "[Register ''a'', Register ''b'', Unregister ''a'', Register ''a'']"]
  by (simp add: run_registry_def registry_new_def register_client_def unregister_client_def Let_def)

end
