(* ===== verification/WgPeers.thy ===== *)
theory WgPeers
  imports Auth Forwarder
begin

text \<open>
  The WireGuard peer registry of the server (\<^verbatim>\<open>wireguard.rs\<close>, lines 46--306): leases of addresses
  of 100.64.1.0/24, their file, pruning and allocation.  The time is an argument, one reading
  per operation.  Operations that \<^verbatim>\<open>expect\<close> a result are in \<open>exec\<close>.
\<close>

subsection \<open>State\<close>

record WireGuardPeer =
  wp_device_public_key :: string
  wp_wg_public_key :: string
  wp_peer_ip :: Ipv4Addr
  wp_lease_expires_at :: u64

record RegisteredWireGuardPeer =
  rp_peer_ip :: string
  rp_lease_expires_at :: u64

type_synonym wg_peers = "(string, WireGuardPeer) hmap"

record WireGuardPeerRegistry =
  wr_peers :: wg_peers
  wr_next_octet :: byte
  wr_peer_lease :: u64
  wr_file :: "WireGuardPeer list disk_file option"

definition new_with_lease :: "u64 \<Rightarrow> WireGuardPeerRegistry" where
  "new_with_lease lease = \<lparr> wr_peers = [], wr_next_octet = 1, wr_peer_lease = lease, wr_file = None \<rparr>"

subsection \<open>Allocation\<close>

definition normalize_octet :: "byte \<Rightarrow> byte" where
  "normalize_octet octet = (if octet = 0 \<or> octet = 255 then 1 else min octet 254)"

fun last_octet :: "Ipv4Addr \<Rightarrow> byte" where
  "last_octet (Ipv4Addr a b c d) = d"

definition octet_in_use :: "wg_peers \<Rightarrow> byte \<Rightarrow> bool" where
  "octet_in_use peers candidate \<longleftrightarrow> list_ex (\<lambda>(_, p). last_octet (wp_peer_ip p) = candidate) peers"

definition octet_candidate :: "byte \<Rightarrow> nat \<Rightarrow> byte" where
  "octet_candidate start offset = of_nat ((unat start - 1 + offset) mod 254 + 1)"

definition allocate_peer_ip :: "wg_peers \<Rightarrow> byte \<Rightarrow> (byte \<times> Ipv4Addr) option" where
  "allocate_peer_ip peers next_octet =
     (let start = normalize_octet next_octet
      in case find (\<lambda>candidate. \<not> octet_in_use peers candidate) (map (octet_candidate start) [0..<254]) of
           None \<Rightarrow> None
         | Some candidate \<Rightarrow>
             Some (normalize_octet (saturating_add candidate 1), Ipv4Addr 100 64 1 candidate))"

subsection \<open>The file\<close>

definition wg_peer_before :: "WireGuardPeer \<Rightarrow> WireGuardPeer \<Rightarrow> bool" where
  "wg_peer_before l r \<longleftrightarrow> string_less (wp_device_public_key l) (wp_device_public_key r)"

definition persist_peers_file ::
  "wg_peers \<Rightarrow> WireGuardPeer list disk_file \<Rightarrow> (IoError, WireGuardPeer list disk_file) res" where
  "persist_peers_file peers f = write_doc (sort_rows wg_peer_before (map snd peers)) f"

definition persist_locked :: "wg_peers \<Rightarrow> WireGuardPeerRegistry \<Rightarrow> (IoError, WireGuardPeerRegistry) res" where
  "persist_locked peers r =
     (case wr_file r of
        None \<Rightarrow> Ok r
      | Some f \<Rightarrow> res_bind (persist_peers_file peers f) (\<lambda>f'. Ok (r\<lparr> wr_file := Some f' \<rparr>)))"

text \<open>The loop over the peers of the file: the map, the greatest octet and the \<^verbatim>\<open>normalized\<close> flag.\<close>

fun load_peers_step ::
  "u64 \<Rightarrow> u64 \<Rightarrow> wg_peers \<times> byte \<times> bool \<Rightarrow> WireGuardPeer \<Rightarrow> wg_peers \<times> byte \<times> bool" where
  "load_peers_step now default_lease (peers, max_octet, normalized) peer =
     (let peer' = (if wp_lease_expires_at peer = 0 then peer\<lparr> wp_lease_expires_at := default_lease \<rparr> else peer);
          normalized' = (normalized \<or> wp_lease_expires_at peer = 0)
      in if wp_lease_expires_at peer' \<le> now then (peers, max_octet, True)
         else (hm_insert (wp_device_public_key peer') peer' peers,
               max max_octet (last_octet (wp_peer_ip peer')), normalized'))"

definition load_peers_file ::
  "u64 \<Rightarrow> u64 \<Rightarrow> WireGuardPeer list disk_file \<Rightarrow> (IoError, wg_peers \<times> byte \<times> bool) res" where
  "load_peers_file now lease f =
     (case df_content f of
        Missing \<Rightarrow> Ok ([], 1, False)
      | Unreadable \<Rightarrow> Err ReadFailed
      | Content ps \<Rightarrow>
          let (peers, max_octet, normalized) =
                foldl (load_peers_step now (saturating_add now lease)) ([], 0, False) ps
          in Ok (peers, normalize_octet (saturating_add max_octet 1), normalized))"

definition load_with_lease ::
  "u64 \<Rightarrow> u64 \<Rightarrow> WireGuardPeer list disk_file \<Rightarrow> (IoError, WireGuardPeerRegistry) res" where
  "load_with_lease now lease f =
     res_bind (load_peers_file now lease f) (\<lambda>(peers, octet, normalized).
       let r = \<lparr> wr_peers = peers, wr_next_octet = octet, wr_peer_lease = lease, wr_file = Some f \<rparr>
       in if normalized then persist_locked peers r else Ok r)"

subsection \<open>Operations\<close>

definition live_peers :: "u64 \<Rightarrow> wg_peers \<Rightarrow> wg_peers" where
  "live_peers now peers =
     filter (\<lambda>(_, p). wp_lease_expires_at p = 0 \<or> now < wp_lease_expires_at p) peers"

definition prune_expired_locked :: "u64 \<Rightarrow> WireGuardPeerRegistry \<Rightarrow> (IoError, WireGuardPeerRegistry) res" where
  "prune_expired_locked now r =
     (let peers = live_peers now (wr_peers r); r' = r\<lparr> wr_peers := peers \<rparr>
      in if length peers \<noteq> length (wr_peers r) then persist_locked peers r' else Ok r')"

text \<open>An \<^verbatim>\<open>expect\<close> on a result.\<close>

definition expect :: "('e, 'a) res \<Rightarrow> 'a exec" where
  "expect r = (case r of Inl e \<Rightarrow> Panic | Inr v \<Rightarrow> Return v)"

definition register_peer_lease ::
  "u64 \<Rightarrow> string \<Rightarrow> string \<Rightarrow> WireGuardPeerRegistry \<Rightarrow> (WireGuardPeerRegistry \<times> RegisteredWireGuardPeer) exec" where
  "register_peer_lease now device_key wg_key r =
     (case expect (prune_expired_locked now r) of
        Panic \<Rightarrow> Panic
      | Return r \<Rightarrow>
          let lease_expires_at = saturating_add now (wr_peer_lease r)
          in case map_of (wr_peers r) device_key of
               Some existing \<Rightarrow>
                 let changed = wp_wg_public_key existing \<noteq> wg_key;
                     lease_changed = wp_lease_expires_at existing \<noteq> lease_expires_at;
                     peer = existing\<lparr> wp_wg_public_key := wg_key, wp_lease_expires_at := lease_expires_at \<rparr>;
                     peers = hm_insert device_key peer (wr_peers r);
                     r = r\<lparr> wr_peers := peers \<rparr>;
                     result = \<lparr> rp_peer_ip = show_ipv4 (wp_peer_ip existing) @ ''/32'',
                                rp_lease_expires_at = lease_expires_at \<rparr>
                 in if changed \<or> lease_changed
                    then (case expect (persist_locked peers r) of Panic \<Rightarrow> Panic | Return r \<Rightarrow> Return (r, result))
                    else Return (r, result)
             | None \<Rightarrow>
                 (case allocate_peer_ip (wr_peers r) (wr_next_octet r) of
                    None \<Rightarrow> Panic
                  | Some (octet, ip) \<Rightarrow>
                      let peer = \<lparr> wp_device_public_key = device_key, wp_wg_public_key = wg_key,
                                   wp_peer_ip = ip, wp_lease_expires_at = lease_expires_at \<rparr>;
                          peers = hm_insert device_key peer (wr_peers r);
                          r = r\<lparr> wr_peers := peers, wr_next_octet := octet \<rparr>
                      in case expect (persist_locked peers r) of
                           Panic \<Rightarrow> Panic
                         | Return r \<Rightarrow>
                             Return (r, \<lparr> rp_peer_ip = show_ipv4 ip @ ''/32'', rp_lease_expires_at = lease_expires_at \<rparr>)))"

definition register_peer ::
  "u64 \<Rightarrow> string \<Rightarrow> string \<Rightarrow> WireGuardPeerRegistry \<Rightarrow> (WireGuardPeerRegistry \<times> string) exec" where
  "register_peer now device_key wg_key r =
     (case register_peer_lease now device_key wg_key r of
        Panic \<Rightarrow> Panic | Return (r', p) \<Rightarrow> Return (r', rp_peer_ip p))"

definition find_by_wg_key ::
  "u64 \<Rightarrow> string \<Rightarrow> WireGuardPeerRegistry \<Rightarrow> (WireGuardPeerRegistry \<times> WireGuardPeer option) exec" where
  "find_by_wg_key now wg_key r =
     (case expect (prune_expired_locked now r) of
        Panic \<Rightarrow> Panic
      | Return r \<Rightarrow> Return (r, find (\<lambda>p. wp_wg_public_key p = wg_key) (map snd (wr_peers r))))"

definition all_peers :: "u64 \<Rightarrow> WireGuardPeerRegistry \<Rightarrow> (WireGuardPeerRegistry \<times> WireGuardPeer list) exec" where
  "all_peers now r =
     (case expect (prune_expired_locked now r) of
        Panic \<Rightarrow> Panic
      | Return r \<Rightarrow> Return (r, map snd (wr_peers r)))"

subsection \<open>Octets\<close>

lemma normalize_octet_range: "1 \<le> unat (normalize_octet b) \<and> unat (normalize_octet b) \<le> 254"
proof -
  have "unat b < 256" using unat_bound [of b] by simp
  moreover have "b \<noteq> 0 \<longleftrightarrow> unat b \<noteq> 0" by (simp add: unat_eq_0)
  moreover have "unat (min b 254) = min (unat b) 254" by (simp add: min_def word_le_nat_alt)
  ultimately show ?thesis by (auto simp: normalize_octet_def)
qed

lemma octet_candidate_unat: "unat (octet_candidate start i) = (unat start - 1 + i) mod 254 + 1"
proof -
  have "(unat start - 1 + i) mod 254 < 254" by simp
  then show ?thesis by (simp add: octet_candidate_def unat_of_nat_small del: of_nat_add of_nat_Suc)
qed

lemma rotate_range:
  fixes s K :: nat
  assumes "0 < K"
  shows "(\<lambda>i. Suc ((s + i) mod K)) ` {0..<K} = {1..K}"
proof -
  have "(\<lambda>i. (s + i) mod K) ` {0..<K} = {0..<K}"
  proof (rule card_subset_eq)
    have "inj_on (\<lambda>i. (s + i) mod K) {0..<K}"
    proof (rule inj_onI)
      fix i j assume ij: "i \<in> {0..<K}" "j \<in> {0..<K}" and eq: "(s + i) mod K = (s + j) mod K"
      have "(int s + int i) mod int K = (int s + int j) mod int K"
        using eq by (metis of_nat_add of_nat_mod)
      then have "int K dvd (int i - int j)" by (simp add: mod_eq_dvd_iff)
      moreover from this have "int K dvd (int j - int i)" by (simp add: dvd_diff_commute)
      ultimately show "i = j"
        using ij zdvd_not_zless [of "int i - int j" "int K"] zdvd_not_zless [of "int j - int i" "int K"] by fastforce
    qed
    then show "card ((\<lambda>i. (s + i) mod K) ` {0..<K}) = card {0..<K}" by (simp add: card_image)
  qed (use assms in auto)
  then have "Suc ` (\<lambda>i. (s + i) mod K) ` {0..<K} = {Suc 0..<Suc K}" by (simp only: image_Suc_atLeastLessThan)
  then show ?thesis by (simp only: image_image atLeastLessThanSuc_atLeastAtMost One_nat_def)
qed

text \<open>The candidates from any start are exactly the host octets 1 to 254.\<close>

lemma octet_candidates: "unat ` set (map (octet_candidate start) [0..<254]) = {1..254}"
  using rotate_range [of 254 "unat start - 1"]
  by (simp only: image_image octet_candidate_unat set_map set_upt Suc_eq_plus1)

subsection \<open>Invariant\<close>

text \<open>Host addresses of the subnet; peers that agree in device or in the last octet are the same.\<close>

definition host_ip :: "Ipv4Addr \<Rightarrow> bool" where
  "host_ip ip \<longleftrightarrow> (\<exists>d. ip = Ipv4Addr 100 64 1 d \<and> 1 \<le> unat d \<and> unat d \<le> 254)"

definition map_ok :: "wg_peers \<Rightarrow> bool" where
  "map_ok m \<longleftrightarrow> distinct (keys m) \<and>
     (\<forall>k p. map_of m k = Some p \<longrightarrow> wp_device_public_key p = k \<and> host_ip (wp_peer_ip p)) \<and>
     (\<forall>k j p q. map_of m k = Some p \<longrightarrow> map_of m j = Some q \<longrightarrow>
        last_octet (wp_peer_ip p) = last_octet (wp_peer_ip q) \<longrightarrow> k = j)"

definition list_ok :: "WireGuardPeer list \<Rightarrow> bool" where
  "list_ok ps \<longleftrightarrow> (\<forall>p \<in> set ps. host_ip (wp_peer_ip p)) \<and>
     (\<forall>p \<in> set ps. \<forall>q \<in> set ps.
        wp_device_public_key p = wp_device_public_key q \<or>
        last_octet (wp_peer_ip p) = last_octet (wp_peer_ip q) \<longrightarrow> p = q)"

text \<open>The file, when there is one, holds the peers of the map.\<close>

definition file_synced :: "WireGuardPeerRegistry \<Rightarrow> bool" where
  "file_synced r \<longleftrightarrow>
     (case wr_file r of
        None \<Rightarrow> True
      | Some f \<Rightarrow> (case df_content f of
                    Missing \<Rightarrow> wr_peers r = []
                  | Unreadable \<Rightarrow> False
                  | Content ps \<Rightarrow> set ps = snd ` set (wr_peers r)))"

definition wg_inv :: "WireGuardPeerRegistry \<Rightarrow> bool" where
  "wg_inv r \<longleftrightarrow> map_ok (wr_peers r) \<and> file_synced r"

lemma map_okI:
  assumes "distinct (keys m)"
    and "\<And>k p. map_of m k = Some p \<Longrightarrow> wp_device_public_key p = k \<and> host_ip (wp_peer_ip p)"
    and "\<And>k j p q. map_of m k = Some p \<Longrightarrow> map_of m j = Some q \<Longrightarrow>
        last_octet (wp_peer_ip p) = last_octet (wp_peer_ip q) \<Longrightarrow> k = j"
  shows "map_ok m"
  using assms unfolding map_ok_def by blast

lemma map_okD:
  assumes "map_ok m"
  shows "distinct (keys m)"
    and "map_of m k = Some p \<Longrightarrow> wp_device_public_key p = k \<and> host_ip (wp_peer_ip p)"
    and "map_of m k = Some p \<Longrightarrow> map_of m j = Some q \<Longrightarrow>
        last_octet (wp_peer_ip p) = last_octet (wp_peer_ip q) \<Longrightarrow> k = j"
  using assms unfolding map_ok_def by blast+

lemma map_ok_Nil [simp]: "map_ok []" by (simp add: map_ok_def)

lemma map_ok_sub:
  assumes "map_ok m" "distinct (keys m')" "\<And>k p. map_of m' k = Some p \<Longrightarrow> map_of m k = Some p"
  shows "map_ok m'"
  by (rule map_okI [OF assms(2)]) (blast dest: assms(3) map_okD(2,3) [OF assms(1)])+

lemma map_ok_set: "map_ok m \<Longrightarrow> (k, p) \<in> set m \<longleftrightarrow> map_of m k = Some p"
  by (simp add: map_okD(1))

lemma map_of_filter_sub:
  assumes "distinct (keys m)" "map_of (filter P m) k = Some p"
  shows "map_of m k = Some p"
proof -
  have "(k, p) \<in> set m" using map_of_SomeD [OF assms(2)] by simp
  then show ?thesis by (rule map_of_is_SomeI [OF assms(1)])
qed

lemma live_peers_ok:
  assumes "map_ok m" shows "map_ok (live_peers now m)"
  unfolding live_peers_def
proof (rule map_ok_sub [OF assms])
  show "distinct (keys (filter (\<lambda>(_, p). wp_lease_expires_at p = 0 \<or> now < wp_lease_expires_at p) m))"
    by (rule distinct_map_filter [OF map_okD(1) [OF assms]])
qed (rule map_of_filter_sub [OF map_okD(1) [OF assms]])

lemma octet_in_use_iff:
  assumes "map_ok m"
  shows "octet_in_use m c \<longleftrightarrow> (\<exists>k p. map_of m k = Some p \<and> last_octet (wp_peer_ip p) = c)"
  using map_ok_set [OF assms] by (auto simp: octet_in_use_def list_ex_iff)

lemma allocate_fresh:
  assumes "allocate_peer_ip m n = Some (octet, ip)"
  shows "host_ip ip \<and> \<not> octet_in_use m (last_octet ip)"
proof -
  let ?cs = "map (octet_candidate (normalize_octet n)) [0..<254]"
  from assms obtain c where c: "find (\<lambda>c. \<not> octet_in_use m c) ?cs = Some c" "ip = Ipv4Addr 100 64 1 c"
    unfolding allocate_peer_ip_def Let_def by (auto split: option.splits simp del: upt_rec_numeral)
  from find_in_set [OF c(1)] have "c \<in> set ?cs" "\<not> octet_in_use m c" by blast+
  moreover from this(1) have "unat c \<in> {1..254}" using octet_candidates by blast
  ultimately show ?thesis by (auto simp: host_ip_def c(2))
qed

lemma map_ok_insert_new:
  assumes ok: "map_ok m" and p: "wp_device_public_key p = k" "host_ip (wp_peer_ip p)"
    and fresh: "\<not> octet_in_use m (last_octet (wp_peer_ip p))"
  shows "map_ok (hm_insert k p m)"
proof (rule map_okI, goal_cases)
  case 1 show ?case by (rule distinct_hm_insert [OF map_okD(1) [OF ok]])
next
  case (2 j q) then show ?case using p map_okD(2) [OF ok, of j q] by (cases "j = k") simp_all
next
  case (3 i j q q')
  note f = fresh [unfolded octet_in_use_iff [OF ok]]
  show ?case
  proof (cases "i = k"; cases "j = k")
    assume "i = k" "j \<noteq> k" with 3 f show ?thesis by fastforce
  next
    assume "i \<noteq> k" "j = k" with 3 f show ?thesis by fastforce
  next
    assume "i \<noteq> k" "j \<noteq> k" with 3 map_okD(3) [OF ok, of i q j q'] show ?thesis by simp
  qed simp
qed

lemma map_ok_insert_same:
  assumes ok: "map_ok m" and old: "map_of m k = Some q" and p: "wp_device_public_key p = k" "wp_peer_ip p = wp_peer_ip q"
  shows "map_ok (hm_insert k p m)"
proof (rule map_okI, goal_cases)
  case 1 show ?case by (rule distinct_hm_insert [OF map_okD(1) [OF ok]])
next
  case (2 j r) then show ?case using p map_okD(2) [OF ok, of j r] map_okD(2) [OF ok old] by (cases "j = k") simp_all
next
  case (3 i j r r')
  consider "i = j" | "i = k" "j \<noteq> k" | "i \<noteq> k" "j = k" | "i \<noteq> k" "j \<noteq> k" by blast
  then show ?case
  proof cases
    case c: 2
    with 3 p have "map_of m j = Some r'" "last_octet (wp_peer_ip q) = last_octet (wp_peer_ip r')" by auto
    with map_okD(3) [OF ok old] c show ?thesis by blast
  next
    case c: 3
    with 3 p have "map_of m i = Some r" "last_octet (wp_peer_ip r) = last_octet (wp_peer_ip q)" by auto
    with map_okD(3) [OF ok _ old] c show ?thesis by blast
  next
    case c: 4
    with 3 have "map_of m i = Some r" "map_of m j = Some r'" by auto
    with map_okD(3) [OF ok] 3(3) show ?thesis by blast
  qed simp
qed

subsection \<open>Operations keep the invariant\<close>

lemma set_insert_by [simp]: "set (insert_by lt x xs) = insert x (set xs)"
  by (induction xs) auto

lemma set_sort_rows [simp]: "set (sort_rows lt xs) = set xs"
  by (induction xs) (simp_all add: sort_rows_def)

lemma persist_locked_sync:
  assumes "persist_locked (wr_peers r) r = Ok r'"
  shows "file_synced r' \<and> wr_peers r' = wr_peers r \<and> wr_next_octet r' = wr_next_octet r \<and>
    wr_peer_lease r' = wr_peer_lease r"
  using assms
  by (auto simp: persist_locked_def persist_peers_file_def write_doc_def file_synced_def
      split: option.splits if_splits)

lemma persist_lockedD:
  assumes "persist_locked peers r = Ok r'" "wr_peers r = peers" "map_ok peers"
  shows "wg_inv r' \<and> wr_peers r' = peers \<and> wr_next_octet r' = wr_next_octet r \<and>
    wr_peer_lease r' = wr_peer_lease r"
  using persist_locked_sync [of r r'] assms by (simp add: wg_inv_def)

lemma filter_length_same: "length (filter P xs) = length xs \<Longrightarrow> filter P xs = xs"
  by (metis filter_True length_filter_less less_irrefl)

lemma prune_ok:
  assumes "wg_inv r" "prune_expired_locked now r = Ok r'"
  shows "wg_inv r' \<and> wr_peers r' = live_peers now (wr_peers r) \<and> wr_next_octet r' = wr_next_octet r \<and>
    wr_peer_lease r' = wr_peer_lease r"
proof -
  let ?live = "live_peers now (wr_peers r)"
  have live: "map_ok ?live" using assms(1) live_peers_ok by (simp add: wg_inv_def)
  show ?thesis
  proof (cases "length ?live = length (wr_peers r)")
    case True
    then have "?live = wr_peers r" unfolding live_peers_def by (rule filter_length_same)
    with assms show ?thesis by (simp add: prune_expired_locked_def)
  next
    case False
    with assms(2) have "persist_locked ?live (r\<lparr> wr_peers := ?live \<rparr>) = Ok r'"
      by (simp add: prune_expired_locked_def Let_def)
    from persist_lockedD [OF this _ live] show ?thesis by simp
  qed
qed

lemma hm_insert_absent: "map_of m k = None \<Longrightarrow> hm_insert k v m = m @ [(k, v)]"
  by (induction m) (auto split: if_splits)

lemma list_ok_cong: "set ps = set qs \<Longrightarrow> list_ok ps = list_ok qs"
  by (simp add: list_ok_def)

lemma expect_Return: "expect r = Return v \<longleftrightarrow> r = Ok v"
  by (cases r) (simp_all add: expect_def)

text \<open>What a registration leaves behind, in both of its branches.\<close>

lemma register_result:
  assumes inv: "wg_inv r" and reg: "register_peer_lease now dk wk r = Return (r', res)"
  shows "wg_inv r' \<and> (\<exists>p. wr_peers r' = hm_insert dk p (live_peers now (wr_peers r)) \<and>
    wp_device_public_key p = dk \<and> wp_wg_public_key p = wk \<and>
    wp_lease_expires_at p = saturating_add now (wr_peer_lease r) \<and>
    (\<forall>q. map_of (live_peers now (wr_peers r)) dk = Some q \<longrightarrow> wp_peer_ip p = wp_peer_ip q) \<and>
    res = \<lparr> rp_peer_ip = show_ipv4 (wp_peer_ip p) @ ''/32'', rp_lease_expires_at = wp_lease_expires_at p \<rparr>)"
proof -
  obtain r1 where r1: "prune_expired_locked now r = Ok r1"
    using reg by (auto simp: register_peer_lease_def expect_Return split: exec.splits)
  note pr = prune_ok [OF inv r1]
  then have ok: "map_ok (wr_peers r1)" unfolding wg_inv_def by blast
  have e: "expect (prune_expired_locked now r) = Return r1" by (simp add: r1 expect_def)
  let ?l = "saturating_add now (wr_peer_lease r1)"
  show ?thesis
  proof (cases "map_of (wr_peers r1) dk")
    case (Some q)
    let ?p = "q\<lparr> wp_wg_public_key := wk, wp_lease_expires_at := ?l \<rparr>"
    let ?m = "hm_insert dk ?p (wr_peers r1)"
    have m: "map_ok ?m"
      by (rule map_ok_insert_same [OF ok Some]) (use map_okD(2) [OF ok Some] in simp_all)
    let ?same = "wp_wg_public_key q = wk \<and> wp_lease_expires_at q = ?l"
    have res: "res = \<lparr> rp_peer_ip = show_ipv4 (wp_peer_ip q) @ ''/32'', rp_lease_expires_at = ?l \<rparr>"
      using reg by (auto simp: register_peer_lease_def e Some Let_def split: if_splits exec.splits)
    have "wg_inv r' \<and> wr_peers r' = ?m"
    proof (cases ?same)
      case True
      then have "?p = q" by simp
      then have mid: "?m = wr_peers r1" using update_triv [OF Some] by simp
      from True reg have "r' = r1\<lparr> wr_peers := ?m \<rparr>"
        by (auto simp: register_peer_lease_def e Some Let_def split: if_splits exec.splits)
      then have "r' = r1" unfolding mid by simp
      with mid pr show ?thesis by simp
    next
      case False
      with reg have "persist_locked ?m (r1\<lparr> wr_peers := ?m \<rparr>) = Ok r'"
        by (auto simp: register_peer_lease_def e Some Let_def expect_Return split: if_splits exec.splits)
      from persist_lockedD [OF this _ m] show ?thesis by simp
    qed
    with res pr Some map_okD(2) [OF ok Some] show ?thesis by (intro conjI exI [of _ ?p]) auto
  next
    case None
    then obtain octet ip where al: "allocate_peer_ip (wr_peers r1) (wr_next_octet r1) = Some (octet, ip)"
      using reg by (auto simp: register_peer_lease_def e Let_def split: option.splits)
    let ?p = "\<lparr> wp_device_public_key = dk, wp_wg_public_key = wk, wp_peer_ip = ip, wp_lease_expires_at = ?l \<rparr>"
    let ?m = "hm_insert dk ?p (wr_peers r1)"
    have m: "map_ok ?m"
      by (rule map_ok_insert_new [OF ok]) (use allocate_fresh [OF al] in simp_all)
    have p: "persist_locked ?m (r1\<lparr> wr_peers := ?m, wr_next_octet := octet \<rparr>) = Ok r'"
      and res: "res = \<lparr> rp_peer_ip = show_ipv4 ip @ ''/32'', rp_lease_expires_at = ?l \<rparr>"
      using reg by (auto simp: register_peer_lease_def e None al Let_def expect_Return split: exec.splits)
    from persist_lockedD [OF p _ m] res pr None show ?thesis by (intro conjI exI [of _ ?p]) auto
  qed
qed

text \<open>Loading a file whose peers are in order, whatever leases have run out.\<close>

definition loaded_from :: "WireGuardPeer list \<Rightarrow> wg_peers \<Rightarrow> bool" where
  "loaded_from ps m \<longleftrightarrow> distinct (keys m) \<and>
     (\<forall>k p. map_of m k = Some p \<longrightarrow> wp_device_public_key p = k \<and>
        (\<exists>q \<in> set ps. wp_device_public_key q = k \<and> wp_peer_ip q = wp_peer_ip p))"

lemma loaded_from_step:
  assumes "loaded_from ps m" "q \<in> set ps" "load_peers_step now l (m, o', n) q = (m', o'', n')"
  shows "loaded_from ps m'"
  using assms
  by (auto simp: loaded_from_def Let_def simp del: map_of_eq_Some_iff split: if_splits) (use assms(2) in blast)+

lemma loaded_from_foldl:
  assumes "loaded_from ps m" "set qs \<subseteq> set ps" "foldl (load_peers_step now l) (m, o', n) qs = (m', o'', n')"
  shows "loaded_from ps m'"
  using assms
proof (induction qs arbitrary: m o' n)
  case (Cons q qs)
  obtain m1 o1 n1 where st: "load_peers_step now l (m, o', n) q = (m1, o1, n1)" by (metis prod_cases3)
  have "loaded_from ps m1" by (rule loaded_from_step [OF Cons.prems(1) _ st]) (use Cons.prems(2) in simp)
  from Cons.IH [OF this] Cons.prems(2,3) st show ?case by simp
qed simp

lemma loaded_map_ok:
  assumes "loaded_from ps m" "list_ok ps" shows "map_ok m"
proof (rule map_okI)
  show "distinct (keys m)" using assms(1) by (simp add: loaded_from_def)
next
  fix k p assume "map_of m k = Some p"
  with assms show "wp_device_public_key p = k \<and> host_ip (wp_peer_ip p)"
    unfolding loaded_from_def list_ok_def by metis
next
  fix k j p q assume kp: "map_of m k = Some p" and jq: "map_of m j = Some q"
    and eq: "last_octet (wp_peer_ip p) = last_octet (wp_peer_ip q)"
  obtain p' where "p' \<in> set ps" "wp_device_public_key p' = k" "wp_peer_ip p' = wp_peer_ip p"
    using assms(1) kp unfolding loaded_from_def by blast
  moreover obtain q' where "q' \<in> set ps" "wp_device_public_key q' = j" "wp_peer_ip q' = wp_peer_ip q"
    using assms(1) jq unfolding loaded_from_def by blast
  ultimately show "k = j" using assms(2) eq unfolding list_ok_def by metis
qed

lemma map_ok_list_ok:
  assumes "map_ok m" "set ps = snd ` set m" shows "list_ok ps"
proof -
  have mem: "\<exists>k. map_of m k = Some p" if "p \<in> set ps" for p
    using that assms map_ok_set [OF assms(1)] by auto
  show ?thesis
    unfolding list_ok_def
    by (metis mem map_okD(2) [OF assms(1)] map_okD(3) [OF assms(1)] option.inject)
qed

text \<open>A file that is loaded without change holds the peers of the loaded map.\<close>

lemma load_normalized: "foldl (load_peers_step now l) (m, o', True) qs = (m', o'', n) \<Longrightarrow> n"
proof (induction qs arbitrary: m o')
  case (Cons q qs)
  obtain m1 o1 n1 where st: "load_peers_step now l (m, o', True) q = (m1, o1, n1)" by (metis prod_cases3)
  then have "n1" by (auto simp: Let_def split: if_splits)
  with Cons.prems st have "foldl (load_peers_step now l) (m1, o1, True) qs = (m', o'', n)"
    by (simp del: load_peers_step.simps)
  then show ?case by (rule Cons.IH)
qed simp

lemma load_kept:
  assumes "foldl (load_peers_step now l) (m, o', False) (q # qs) = (m', o'', False)"
  shows "foldl (load_peers_step now l)
    (hm_insert (wp_device_public_key q) q m, max o' (last_octet (wp_peer_ip q)), False) qs = (m', o'', False)"
proof -
  obtain m1 o1 n1 where st: "load_peers_step now l (m, o', False) q = (m1, o1, n1)" by (metis prod_cases3)
  with assms have f: "foldl (load_peers_step now l) (m1, o1, n1) qs = (m', o'', False)"
    by (simp del: load_peers_step.simps)
  have "\<not> n1" using load_normalized [of now l m1 o1 qs m' o'' False] f by (cases n1) auto
  with st have "m1 = hm_insert (wp_device_public_key q) q m" "o1 = max o' (last_octet (wp_peer_ip q))"
    by (auto simp: Let_def split: if_splits)
  with f \<open>\<not> n1\<close> show ?thesis by simp
qed

lemma value_in_map: "map_of m k = Some p \<Longrightarrow> p \<in> snd ` set m"
  by (drule map_of_SomeD) (erule image_eqI [rotated], simp)

lemma insert_again_values:
  assumes "map_of m k = Some p" shows "snd ` set (hm_insert k p m) = insert p (snd ` set m)"
  unfolding update_triv [OF assms] using value_in_map [OF assms] by (simp add: insert_absorb)

lemma list_ok_moved:
  assumes "snd ` set m' = insert q (snd ` set m)" "list_ok (map snd m @ q # qs)"
  shows "list_ok (map snd m' @ qs)"
proof -
  have "set (map snd m @ q # qs) = set (map snd m' @ qs)" using assms(1) by simp
  from list_ok_cong [OF this] assms(2) show ?thesis by blast
qed

lemma list_ok_same_device:
  assumes "list_ok ps" "p \<in> set ps" "q \<in> set ps" "wp_device_public_key p = wp_device_public_key q"
  shows "p = q"
  using assms unfolding list_ok_def by blast

lemma load_unchanged:
  assumes "foldl (load_peers_step now l) (m, o', False) qs = (m', o'', False)"
    "list_ok (map snd m @ qs)" "\<And>k p. map_of m k = Some p \<Longrightarrow> wp_device_public_key p = k"
  shows "snd ` set m' = snd ` set m \<union> set qs"
  using assms
proof (induction qs arbitrary: m o')
  case Nil
  from Nil.prems(1) show ?case by simp
next
  case (Cons q qs)
  let ?k = "wp_device_public_key q" let ?m = "hm_insert ?k q m"
  have vals: "snd ` set ?m = insert q (snd ` set m)"
  proof (cases "map_of m ?k")
    case None
    then show ?thesis by (simp add: hm_insert_absent)
  next
    case (Some p)
    have "p = q"
      by (rule list_ok_same_device [OF Cons.prems(2) _ _ Cons.prems(3) [OF Some]])
        (use value_in_map [OF Some] in simp_all)
    with Some show ?thesis by (intro insert_again_values) (simp only:)
  qed
  have "snd ` set m' = snd ` set ?m \<union> set qs"
  proof (rule Cons.IH [OF load_kept [OF Cons.prems(1)] list_ok_moved [OF vals Cons.prems(2)]])
    fix k p assume kp: "map_of ?m k = Some p"
    show "wp_device_public_key p = k"
    proof (cases "k = ?k")
      case False
      with kp have "map_of m k = Some p" by (simp only: map_of_hm_insert fun_upd_apply if_False)
      then show ?thesis by (rule Cons.prems(3))
    next
      case True
      with kp show ?thesis by auto
    qed
  qed
  with vals show ?case by (simp only: Un_insert_left Un_insert_right list.set)
qed

lemma load_with_lease_inv:
  assumes "load_with_lease now lease f = Ok r" "df_content f = Missing \<or> (\<exists>ps. df_content f = Content ps \<and> list_ok ps)"
  shows "wg_inv r"
proof (cases "df_content f")
  case Missing
  with assms(1) show ?thesis
    by (auto simp: load_with_lease_def load_peers_file_def wg_inv_def file_synced_def)
next
  case Unreadable with assms(2) show ?thesis by simp
next
  case (Content ps)
  with assms(2) have lok: "list_ok ps" by simp
  obtain m o' n where fold: "foldl (load_peers_step now (saturating_add now lease)) ([], 0, False) ps = (m, o', n)"
    by (metis prod_cases3)
  have "loaded_from ps m"
    by (rule loaded_from_foldl [OF _ subset_refl fold]) (simp add: loaded_from_def)
  from loaded_map_ok [OF this lok] have m: "map_ok m" .
  let ?r = "\<lparr> wr_peers = m, wr_next_octet = normalize_octet (saturating_add o' 1), wr_peer_lease = lease, wr_file = Some f \<rparr>"
  have r: "(if n then persist_locked m ?r else Ok ?r) = Ok r"
    using assms(1) fold by (simp add: load_with_lease_def load_peers_file_def Content Let_def)
  show ?thesis
  proof (cases n)
    case True
    with r persist_lockedD [of m ?r r] m show ?thesis by simp
  next
    case False
    with fold load_unchanged [of now _ "[]" 0 ps m o'] lok have "snd ` set m = set ps" by simp
    with False r m Content show ?thesis by (auto simp: wg_inv_def file_synced_def)
  qed
qed

subsection \<open>Reachable registries\<close>

inductive wg_reach :: "WireGuardPeerRegistry \<Rightarrow> bool" where
  memory: "wg_reach (new_with_lease lease)"
| empty_file: "df_content f = Missing \<Longrightarrow> load_with_lease now lease f = Ok r \<Longrightarrow> wg_reach r"
| register: "wg_reach r \<Longrightarrow> register_peer_lease now dk wk r = Return (r', res) \<Longrightarrow> wg_reach r'"
| list_peers: "wg_reach r \<Longrightarrow> all_peers now r = Return (r', ps) \<Longrightarrow> wg_reach r'"
| find_key: "wg_reach r \<Longrightarrow> find_by_wg_key now wk r = Return (r', p) \<Longrightarrow> wg_reach r'"
| restart: "wg_reach r \<Longrightarrow> wr_file r = Some f \<Longrightarrow> load_with_lease now lease f = Ok r' \<Longrightarrow> wg_reach r'"

lemma wg_reach_inv: "wg_reach r \<Longrightarrow> wg_inv r"
proof (induction rule: wg_reach.induct)
  case (memory lease)
  then show ?case by (simp add: new_with_lease_def wg_inv_def file_synced_def)
next
  case (empty_file f now lease r)
  then show ?case by (blast intro: load_with_lease_inv)
next
  case (register r now dk wk r' res)
  then show ?case using register_result by blast
next
  case (list_peers r now r' ps)
  then show ?case using prune_ok by (auto simp: all_peers_def expect_Return split: exec.splits)
next
  case (find_key r now wk r' p)
  then show ?case using prune_ok by (auto simp: find_by_wg_key_def expect_Return split: exec.splits)
next
  case (restart r f now lease r')
  have "df_content f = Missing \<or> (\<exists>ps. df_content f = Content ps \<and> list_ok ps)"
    using restart.IH restart.hyps(2) map_ok_list_ok
    by (auto simp: wg_inv_def file_synced_def split: file_state.splits)
  with restart.hyps(3) show ?case by (rule load_with_lease_inv)
qed

text \<open>
  C25.  In every reachable registry, restarts from its own file included, each device has an address
  100.64.1.1 to 100.64.1.254 and no two devices have the same address; a registration gives
  the device its old address if its lease is live, renews the lease, and leaves the
  addresses of the other live devices as they are.
\<close>

theorem wg_addresses:
  assumes "wg_reach r" "register_peer_lease now dk wk r = Return (r', res)"
  shows "(\<forall>k p. map_of (wr_peers r') k = Some p \<longrightarrow>
      (\<exists>d. wp_peer_ip p = Ipv4Addr 100 64 1 d \<and> 1 \<le> unat d \<and> unat d \<le> 254) \<and>
      (\<forall>j q. map_of (wr_peers r') j = Some q \<and> wp_peer_ip q = wp_peer_ip p \<longrightarrow> j = k)) \<and>
    (\<exists>p. map_of (wr_peers r') dk = Some p \<and> wp_wg_public_key p = wk \<and>
       wp_lease_expires_at p = saturating_add now (wr_peer_lease r) \<and>
       rp_peer_ip res = show_ipv4 (wp_peer_ip p) @ ''/32'' \<and>
       (\<forall>q. map_of (live_peers now (wr_peers r)) dk = Some q \<longrightarrow> wp_peer_ip p = wp_peer_ip q)) \<and>
    (\<forall>k. k \<noteq> dk \<longrightarrow> map_of (wr_peers r') k = map_of (live_peers now (wr_peers r)) k)"
proof -
  note res = register_result [OF wg_reach_inv [OF assms(1)] assms(2)]
  then have ok: "map_ok (wr_peers r')" unfolding wg_inv_def by blast
  have 1: "(\<exists>d. wp_peer_ip p = Ipv4Addr 100 64 1 d \<and> 1 \<le> unat d \<and> unat d \<le> 254) \<and>
      (\<forall>j q. map_of (wr_peers r') j = Some q \<and> wp_peer_ip q = wp_peer_ip p \<longrightarrow> j = k)"
    if "map_of (wr_peers r') k = Some p" for k p
  proof (intro conjI allI impI)
    show "\<exists>d. wp_peer_ip p = Ipv4Addr 100 64 1 d \<and> 1 \<le> unat d \<and> unat d \<le> 254"
      using map_okD(2) [OF ok that] by (simp add: host_ip_def)
    fix j q assume "map_of (wr_peers r') j = Some q \<and> wp_peer_ip q = wp_peer_ip p"
    then show "j = k" using map_okD(3) [OF ok _ that] by metis
  qed
  obtain p where p: "wr_peers r' = hm_insert dk p (live_peers now (wr_peers r))" "wp_wg_public_key p = wk"
    "wp_lease_expires_at p = saturating_add now (wr_peer_lease r)"
    "\<forall>q. map_of (live_peers now (wr_peers r)) dk = Some q \<longrightarrow> wp_peer_ip p = wp_peer_ip q"
    "rp_peer_ip res = show_ipv4 (wp_peer_ip p) @ ''/32''"
    using res by auto
  have 2: "map_of (wr_peers r') dk = Some p" unfolding p(1) by simp
  have 3: "map_of (wr_peers r') k = map_of (live_peers now (wr_peers r)) k" if "k \<noteq> dk" for k
    unfolding p(1) using that by simp
  from 1 2 3 p(2-5) show ?thesis by blast
qed

definition file_writable :: "WireGuardPeerRegistry \<Rightarrow> bool" where
  "file_writable r \<longleftrightarrow> (case wr_file r of None \<Rightarrow> True | Some f \<Rightarrow> df_writable f)"

lemma writable_persists: "file_writable r \<Longrightarrow> \<exists>r'. persist_locked peers r = Ok r' \<and> file_writable r'"
  by (auto simp: file_writable_def persist_locked_def persist_peers_file_def write_doc_def split: option.splits)

lemma writable_prunes: "file_writable r \<Longrightarrow> \<exists>r'. prune_expired_locked now r = Ok r' \<and> file_writable r'"
  using writable_persists [of "r\<lparr> wr_peers := live_peers now (wr_peers r) \<rparr>"]
  by (auto simp: prune_expired_locked_def Let_def file_writable_def)

definition octet_number :: "string \<times> WireGuardPeer \<Rightarrow> nat" where
  "octet_number kp = unat (last_octet (wp_peer_ip (snd kp)))"

lemma octet_number_inj: "map_ok m \<Longrightarrow> inj_on octet_number (set m)"
proof (rule inj_onI)
  fix x y assume ok: "map_ok m" and xy: "x \<in> set m" "y \<in> set m" "octet_number x = octet_number y"
  then have "map_of m (fst x) = Some (snd x)" "map_of m (fst y) = Some (snd y)"
    using map_ok_set [OF ok, of "fst x" "snd x"] map_ok_set [OF ok, of "fst y" "snd y"] by simp_all
  moreover from this map_okD(3) [OF ok] xy(3) have "fst x = fst y" by (simp add: octet_number_def word_unat_eq_iff)
  ultimately show "x = y" by (simp add: prod_eq_iff)
qed

lemma octet_number_range: "map_ok m \<Longrightarrow> octet_number ` set m \<subseteq> {1..254}"
proof
  fix n assume ok: "map_ok m" and "n \<in> octet_number ` set m"
  then obtain k p where "(k, p) \<in> set m" "n = unat (last_octet (wp_peer_ip p))" by (auto simp: octet_number_def)
  moreover from this map_ok_set [OF ok] have "host_ip (wp_peer_ip p)" using map_okD(2) [OF ok] by blast
  ultimately show "n \<in> {1..254}" by (auto simp: host_ip_def)
qed

lemma octet_in_use_number: "octet_in_use m c \<longleftrightarrow> unat c \<in> octet_number ` set m"
  by (force simp: octet_in_use_def list_ex_iff octet_number_def word_unat_eq_iff)

lemma allocate_exhausted:
  assumes "map_ok m"
  shows "allocate_peer_ip m n = None \<longleftrightarrow> length m = 254"
proof -
  let ?cs = "map (octet_candidate (normalize_octet n)) [0..<254]" and ?U = "octet_number ` set m"
  have card: "card ?U = length m"
    using card_image [OF octet_number_inj [OF assms]] map_okD(1) [OF assms]
    by (simp add: distinct_card distinct_map)
  have "allocate_peer_ip m n = None \<longleftrightarrow> find (\<lambda>c. \<not> octet_in_use m c) ?cs = None"
    unfolding allocate_peer_ip_def Let_def by (cases "find (\<lambda>c. \<not> octet_in_use m c) ?cs") (simp_all del: upt_rec_numeral)
  also have "\<dots> \<longleftrightarrow> (\<forall>c \<in> set ?cs. octet_in_use m c)"
    by (simp only: find_None_iff) blast
  also have "\<dots> \<longleftrightarrow> {1..254} \<subseteq> ?U"
    unfolding octet_candidates [of "normalize_octet n", symmetric] by (simp only: octet_in_use_number image_subset_iff)
  also have "\<dots> \<longleftrightarrow> ?U = {1..254}" using octet_number_range [OF assms] by blast
  also have "\<dots> \<longleftrightarrow> length m = 254"
    using card card_subset_eq [OF _ octet_number_range [OF assms]] by auto
  finally show ?thesis .
qed

text \<open>
  C26.  A registration in a reachable registry whose file, if any, can be written panics exactly when
  254 other devices hold live leases; otherwise it returns.
\<close>

theorem wg_register_panics_iff:
  assumes "wg_reach r" "file_writable r"
  shows "register_peer_lease now dk wk r = Panic \<longleftrightarrow>
    map_of (live_peers now (wr_peers r)) dk = None \<and> length (live_peers now (wr_peers r)) = 254"
proof -
  obtain r1 where r1: "prune_expired_locked now r = Ok r1" "file_writable r1"
    using writable_prunes [OF assms(2)] by blast
  note pr = prune_ok [OF wg_reach_inv [OF assms(1)] r1(1)]
  have e: "expect (prune_expired_locked now r) = Return r1" by (simp add: r1 expect_def)
  have live: "live_peers now (wr_peers r) = wr_peers r1" and ok: "map_ok (wr_peers r1)"
    using pr unfolding wg_inv_def by metis+
  have w: "file_writable (r1\<lparr> wr_peers := x \<rparr>)" "file_writable (r1\<lparr> wr_peers := x, wr_next_octet := o' \<rparr>)" for x o'
    using r1(2) by (simp_all add: file_writable_def)
  have pe: "expect (persist_locked ps q) \<noteq> Panic" if "file_writable q" for ps q
    using writable_persists [OF that, of ps] by (auto simp: expect_def)
  show ?thesis
  proof (cases "map_of (wr_peers r1) dk")
    case (Some q)
    then show ?thesis
      using pe [OF w(1)] unfolding live by (simp add: register_peer_lease_def e Let_def split: exec.split)
  next
    case None
    show ?thesis
    proof (cases "allocate_peer_ip (wr_peers r1) (wr_next_octet r1)")
      case no: None
      with None allocate_exhausted [OF ok] show ?thesis
        unfolding live by (simp add: register_peer_lease_def e)
    next
      case (Some oi)
      then have "length (wr_peers r1) \<noteq> 254" using allocate_exhausted [OF ok] by (metis option.distinct(1))
      with None Some pe [OF w(2)] show ?thesis
        unfolding live by (cases oi) (simp add: register_peer_lease_def e Let_def split: exec.split)
    qed
  qed
qed

text \<open>A registry for the witnesses: one device, registered at time 10 with a lease of 100 seconds.\<close>

lemma demo_register:
  "register_peer_lease 10 ''dev'' ''wg'' (new_with_lease 100) =
     Return (\<lparr> wr_peers = [(''dev'', \<lparr> wp_device_public_key = ''dev'', wp_wg_public_key = ''wg'',
                                         wp_peer_ip = Ipv4Addr 100 64 1 1, wp_lease_expires_at = 110 \<rparr>)],
               wr_next_octet = 2, wr_peer_lease = 100, wr_file = None \<rparr>,
             \<lparr> rp_peer_ip = show_ipv4 (Ipv4Addr 100 64 1 1) @ ''/32'', rp_lease_expires_at = 110 \<rparr>)"
proof -
  have "[0..<254] = 0 # [1..<254::nat]" by (simp add: upt_conv_Cons del: upt_rec_numeral)
  then have "allocate_peer_ip [] 1 = Some (2, Ipv4Addr 100 64 1 1)"
    by (simp add: allocate_peer_ip_def octet_in_use_def octet_candidate_def normalize_octet_def saturating_add_def Let_def
        del: upt_rec_numeral)
  then show ?thesis
    by (simp add: register_peer_lease_def new_with_lease_def prune_expired_locked_def live_peers_def expect_def
        persist_locked_def saturating_add_def Let_def)
qed

theorem wg_addresses_witness:
  "\<exists>r' res. register_peer_lease 10 ''dev'' ''wg'' (new_with_lease 100) = Return (r', res) \<and>
     (\<forall>k p. map_of (wr_peers r') k = Some p \<longrightarrow> (\<exists>d. wp_peer_ip p = Ipv4Addr 100 64 1 d \<and> 1 \<le> unat d))"
proof -
  obtain r' res where e: "register_peer_lease 10 ''dev'' ''wg'' (new_with_lease 100) = Return (r', res)"
    using demo_register by (rule that)
  from conjunct1 [OF wg_addresses [OF wg_reach.memory e]] e show ?thesis by blast
qed

theorem wg_register_panics_iff_witness:
  "register_peer_lease 10 ''dev'' ''wg'' (new_with_lease 100) \<noteq> Panic"
  using wg_register_panics_iff [OF wg_reach.memory, of 100 10 "''dev''" "''wg''"]
  by (simp add: file_writable_def new_with_lease_def live_peers_def)

end
