(* ===== verification/TunBridge.thy ===== *)
theory TunBridge
  imports Session Packets Forwarder
begin

text \<open>
  The TUN bridge of the server (\<^verbatim>\<open>tun_bridge.rs\<close>): the writer task moves client packets to the
  device and learns which session a source address belongs to, the reader task routes
  packets of the device back to that session.  A session's channel is the list of frames sent
  on it and whether its receiver is alive.
\<close>

record OutboundPacket =
  op_session_id :: u64
  op_connection_id :: u32
  op_payload :: bytes

record SessionRoute =
  rt_sent :: "SessionFrame list"
  rt_open :: bool
  rt_connection_id :: u32
  rt_next_server_sequence :: u64

record TunBridgeState =
  tb_sessions :: "(u64, SessionRoute) hmap"
  tb_ip_to_session :: "(Ipv4Addr, u64) hmap"
  tb_outbound :: "OutboundPacket list"
  tb_device :: "bytes list"
  tb_writer_alive :: bool

definition tun_bridge_new :: TunBridgeState where
  "tun_bridge_new = \<lparr> tb_sessions = [], tb_ip_to_session = [], tb_outbound = [], tb_device = [],
                      tb_writer_alive = True \<rparr>"

definition register_session :: "u64 \<Rightarrow> TunBridgeState \<Rightarrow> TunBridgeState" where
  "register_session sid s =
     s\<lparr> tb_sessions := hm_insert sid \<lparr> rt_sent = [], rt_open = True, rt_connection_id = 1,
                                       rt_next_server_sequence = 0 \<rparr> (tb_sessions s) \<rparr>"

definition forget_session :: "u64 \<Rightarrow> TunBridgeState \<Rightarrow> TunBridgeState" where
  "forget_session sid s =
     s\<lparr> tb_sessions := hm_remove sid (tb_sessions s),
        tb_ip_to_session := filter (\<lambda>(_, mapped). mapped \<noteq> sid) (tb_ip_to_session s) \<rparr>"

definition unregister_session :: "u64 \<Rightarrow> TunBridgeState \<Rightarrow> TunBridgeState" where
  "unregister_session sid s = forget_session sid s"

text \<open>The result tells whether the writer task still receives.\<close>

definition submit_client_frame :: "u64 \<Rightarrow> SessionFrame \<Rightarrow> TunBridgeState \<Rightarrow> TunBridgeState \<times> bool" where
  "submit_client_frame sid frame s =
     (if tb_writer_alive s
      then (s\<lparr> tb_outbound := tb_outbound s @
                 [\<lparr> op_session_id = sid, op_connection_id = h_connection_id (f_header frame),
                    op_payload = f_payload frame \<rparr>] \<rparr>, True)
      else (s, False))"

text \<open>One turn of the writer task, with the outcome of the write to the device.\<close>

definition tun_write_step :: "bool \<Rightarrow> TunBridgeState \<Rightarrow> TunBridgeState" where
  "tun_write_step write_ok s =
     (case (tb_writer_alive s, tb_outbound s) of
        (True, pkt # rest) \<Rightarrow>
          let s = s\<lparr> tb_outbound := rest \<rparr>
          in case parse_ipv4_src_dst (op_payload pkt) of
               None \<Rightarrow> s
             | Some (src_ip, _) \<Rightarrow>
                 let s = (case map_of (tb_sessions s) (op_session_id pkt) of
                            None \<Rightarrow> s
                          | Some route \<Rightarrow>
                              s\<lparr> tb_sessions := hm_insert (op_session_id pkt)
                                   (route\<lparr> rt_connection_id := op_connection_id pkt \<rparr>) (tb_sessions s),
                                 tb_ip_to_session := hm_insert src_ip (op_session_id pkt) (tb_ip_to_session s) \<rparr>)
                 in if write_ok then s\<lparr> tb_device := tb_device s @ [op_payload pkt] \<rparr>
                    else s\<lparr> tb_writer_alive := False \<rparr>
      | _ \<Rightarrow> s)"

text \<open>One packet read from the device by the reader task.\<close>

definition tun_read_step :: "bytes \<Rightarrow> TunBridgeState \<Rightarrow> TunBridgeState" where
  "tun_read_step packet s =
     (if packet = [] then s
      else case parse_ipv4_src_dst packet of
        None \<Rightarrow> s
      | Some (_, dst_ip) \<Rightarrow>
          (case map_of (tb_ip_to_session s) dst_ip of
             None \<Rightarrow> s
           | Some sid \<Rightarrow>
               (case map_of (tb_sessions s) sid of
                  None \<Rightarrow> s\<lparr> tb_ip_to_session := hm_remove dst_ip (tb_ip_to_session s) \<rparr>
                | Some route \<Rightarrow>
                    let frame = \<lparr> f_header = \<lparr> h_connection_id = rt_connection_id route,
                                               h_sequence = rt_next_server_sequence route, h_flags = 0 \<rparr>,
                                  f_payload = packet \<rparr>;
                        route' = route\<lparr> rt_next_server_sequence := rt_next_server_sequence route + 1 \<rparr>
                    in if rt_open route
                       then s\<lparr> tb_sessions := hm_insert sid (route'\<lparr> rt_sent := rt_sent route @ [frame] \<rparr>) (tb_sessions s) \<rparr>
                       else forget_session sid s)))"

text \<open>The receiver of a session's channel goes away.\<close>

definition close_session_channel :: "u64 \<Rightarrow> TunBridgeState \<Rightarrow> TunBridgeState" where
  "close_session_channel sid s =
     s\<lparr> tb_sessions := hm_update sid (\<lambda>r. r\<lparr> rt_open := False \<rparr>) (tb_sessions s) \<rparr>"

datatype tun_op =
    TunRegister u64 | TunUnregister u64 | TunSubmit u64 SessionFrame | TunWrite bool | TunRead bytes | TunClose u64

fun tun_op_step :: "TunBridgeState \<Rightarrow> tun_op \<Rightarrow> TunBridgeState" where
  "tun_op_step s (TunRegister sid) = register_session sid s"
| "tun_op_step s (TunUnregister sid) = unregister_session sid s"
| "tun_op_step s (TunSubmit sid frame) = fst (submit_client_frame sid frame s)"
| "tun_op_step s (TunWrite ok) = tun_write_step ok s"
| "tun_op_step s (TunRead packet) = tun_read_step packet s"
| "tun_op_step s (TunClose sid) = close_session_channel sid s"

definition tun_run :: "tun_op list \<Rightarrow> TunBridgeState" where
  "tun_run ops = foldl tun_op_step tun_bridge_new ops"

subsection \<open>Invariant\<close>

definition route_ok :: "SessionRoute \<Rightarrow> bool" where
  "route_ok r \<longleftrightarrow> rt_next_server_sequence r = of_nat (length (rt_sent r)) \<and>
     map (h_sequence \<circ> f_header) (rt_sent r) = map of_nat [0..<length (rt_sent r)]"

definition tun_inv :: "TunBridgeState \<Rightarrow> bool" where
  "tun_inv s \<longleftrightarrow>
     (\<forall>ip sid. (ip, sid) \<in> set (tb_ip_to_session s) \<longrightarrow> map_of (tb_sessions s) sid \<noteq> None) \<and>
     (\<forall>sid r. map_of (tb_sessions s) sid = Some r \<longrightarrow> route_ok r)"

lemma tun_invI:
  assumes "\<And>ip sid. (ip, sid) \<in> set (tb_ip_to_session s) \<Longrightarrow> map_of (tb_sessions s) sid \<noteq> None"
    and "\<And>sid r. map_of (tb_sessions s) sid = Some r \<Longrightarrow> route_ok r"
  shows "tun_inv s"
  using assms unfolding tun_inv_def by blast

lemma tun_invD:
  assumes "tun_inv s"
  shows "(ip, sid) \<in> set (tb_ip_to_session s) \<Longrightarrow> map_of (tb_sessions s) sid \<noteq> None"
    and "map_of (tb_sessions s) sid = Some r \<Longrightarrow> route_ok r"
  using assms unfolding tun_inv_def by blast+

lemma in_hm_insert: "x \<in> set (hm_insert k v m) \<Longrightarrow> x = (k, v) \<or> x \<in> set m"
  by (induction m) (auto split: if_splits)

text \<open>Replacing a route by one that is in order, and mapping addresses to it only.\<close>

lemma tun_inv_insert:
  assumes inv: "tun_inv s" and r: "route_ok r" and ses: "tb_sessions s' = hm_insert sid r (tb_sessions s)"
    and ips: "\<And>ip i. (ip, i) \<in> set (tb_ip_to_session s') \<Longrightarrow> i = sid \<or> (ip, i) \<in> set (tb_ip_to_session s)"
  shows "tun_inv s'"
proof (rule tun_invI)
  fix ip i assume "(ip, i) \<in> set (tb_ip_to_session s')"
  from ips [OF this] show "map_of (tb_sessions s') i \<noteq> None"
    using tun_invD(1) [OF inv, of ip i] by (auto simp: ses)
next
  fix i q assume "map_of (tb_sessions s') i = Some q"
  then show "route_ok q" using r tun_invD(2) [OF inv, of i q] by (cases "i = sid") (simp_all add: ses)
qed

lemma tun_inv_same:
  assumes "tun_inv s" "tb_sessions s' = tb_sessions s" "tb_ip_to_session s' = tb_ip_to_session s"
  shows "tun_inv s'"
  using assms by (simp add: tun_inv_def)

lemma forget_session_inv:
  assumes inv: "tun_inv s" shows "tun_inv (forget_session sid s)"
proof (rule tun_invI)
  fix ip i assume "(ip, i) \<in> set (tb_ip_to_session (forget_session sid s))"
  then have "i \<noteq> sid" "(ip, i) \<in> set (tb_ip_to_session s)" by (auto simp: forget_session_def)
  then show "map_of (tb_sessions (forget_session sid s)) i \<noteq> None"
    using tun_invD(1) [OF inv, of ip i] by (auto simp: forget_session_def)
next
  fix i q assume "map_of (tb_sessions (forget_session sid s)) i = Some q"
  then show "route_ok q"
    using tun_invD(2) [OF inv, of i q] by (cases "i = sid") (simp_all add: forget_session_def)
qed

lemma tun_read_inv:
  assumes inv: "tun_inv s" shows "tun_inv (tun_read_step packet s)"
proof -
  have "tun_inv (tun_read_step packet s)"
    if p: "packet \<noteq> []" "parse_ipv4_src_dst packet = Some (src, dst)"
      and m: "map_of (tb_ip_to_session s) dst = Some sid" "map_of (tb_sessions s) sid = Some r" "rt_open r" for src dst sid r
    by (rule tun_inv_insert [OF inv, where sid = sid and r = "r\<lparr> rt_next_server_sequence := rt_next_server_sequence r + 1,
          rt_sent := rt_sent r @ [\<lparr> f_header = \<lparr> h_connection_id = rt_connection_id r, h_sequence = rt_next_server_sequence r, h_flags = 0 \<rparr>,
             f_payload = packet \<rparr>] \<rparr>"])
      (use p m tun_invD(2) [OF inv m(2)] in \<open>auto simp: tun_read_step_def route_ok_def\<close>)
  moreover have "map_of (tb_sessions s) sid \<noteq> None" if "map_of (tb_ip_to_session s) dst = Some sid" for dst sid
    by (rule tun_invD(1) [OF inv map_of_SomeD [OF that]])
  ultimately show ?thesis
    using inv forget_session_inv [OF inv]
    by (fastforce simp: tun_read_step_def Let_def split: option.splits prod.splits)
qed

lemma tun_write_inv:
  assumes inv: "tun_inv s" shows "tun_inv (tun_write_step ok s)"
proof (cases "tb_writer_alive s \<and> tb_outbound s \<noteq> []")
  case True
  then obtain pkt rest where o': "tb_outbound s = pkt # rest" "tb_writer_alive s" by (cases "tb_outbound s") auto
  let ?sid = "op_session_id pkt"
  show ?thesis
  proof (cases "\<exists>src dst r. parse_ipv4_src_dst (op_payload pkt) = Some (src, dst) \<and> map_of (tb_sessions s) ?sid = Some r")
    case True
    then obtain src dst r where p: "parse_ipv4_src_dst (op_payload pkt) = Some (src, dst)"
      and r: "map_of (tb_sessions s) ?sid = Some r" by blast
    show ?thesis
      by (rule tun_inv_insert [OF inv, where sid = ?sid and r = "r\<lparr> rt_connection_id := op_connection_id pkt \<rparr>"])
        (use o' p r tun_invD(2) [OF inv r] in
          \<open>auto simp: tun_write_step_def Let_def route_ok_def dest!: in_hm_insert split: if_splits\<close>)
  next
    case False
    then show ?thesis
      by (intro tun_inv_same [OF inv])
        (use o' in \<open>auto simp: tun_write_step_def Let_def split: option.split\<close>)
  qed
next
  case False
  then have "tun_write_step ok s = s" by (cases "tb_outbound s"; cases "tb_writer_alive s") (auto simp: tun_write_step_def)
  with inv show ?thesis by simp
qed

lemma tun_step_inv: "tun_inv s \<Longrightarrow> tun_inv (tun_op_step s op)"
proof (cases op)
  case (TunRegister sid)
  assume "tun_inv s"
  then show ?thesis
    by (rule tun_inv_insert) (auto simp: TunRegister register_session_def route_ok_def)
next
  case (TunClose sid)
  assume inv: "tun_inv s"
  show ?thesis
  proof (cases "map_of (tb_sessions s) sid")
    case None with inv show ?thesis by (simp add: TunClose close_session_channel_def hm_update_def)
  next
    case (Some r)
    show ?thesis
      by (rule tun_inv_insert [OF inv, where sid = sid and r = "r\<lparr> rt_open := False \<rparr>"])
        (use tun_invD(2) [OF inv Some] Some in \<open>auto simp: TunClose close_session_channel_def hm_update_def route_ok_def\<close>)
  qed
next
  case (TunSubmit sid frame)
  assume "tun_inv s"
  then show ?thesis by (rule tun_inv_same) (simp_all add: TunSubmit submit_client_frame_def)
qed (simp_all add: unregister_session_def forget_session_inv tun_write_inv tun_read_inv)

lemma tun_run_inv: "tun_inv (tun_run ops)"
  unfolding tun_run_def
  by (induction ops rule: rev_induct) (simp_all add: tun_step_inv, simp add: tun_inv_def tun_bridge_new_def)

text \<open>
  C27.  After every history of the bridge an address is mapped to registered sessions only, and the
  frames sent on the channel of a session since its registration carry the consecutive
  sequence numbers from 0.
\<close>

theorem tun_routes_numbered:
  assumes "map_of (tb_sessions (tun_run ops)) sid = Some route"
  shows "map (h_sequence \<circ> f_header) (rt_sent route) = map of_nat [0..<length (rt_sent route)] \<and>
    (\<forall>ip i. map_of (tb_ip_to_session (tun_run ops)) ip = Some i \<longrightarrow> map_of (tb_sessions (tun_run ops)) i \<noteq> None)"
  using tun_invD [OF tun_run_inv [of ops]] assms map_of_SomeD unfolding route_ok_def by metis

theorem tun_routes_numbered_witness:
  "\<exists>route. map_of (tb_sessions (tun_run [TunRegister 3])) 3 = Some route \<and> rt_sent route = [] \<and>
     map (h_sequence \<circ> f_header) (rt_sent route) = map of_nat [0..<length (rt_sent route)]"
proof -
  have "map_of (tb_sessions (tun_run [TunRegister 3])) 3 =
      Some \<lparr> rt_sent = [], rt_open = True, rt_connection_id = 1, rt_next_server_sequence = 0 \<rparr>"
    by (simp add: tun_run_def register_session_def)
  with tun_routes_numbered [OF this] show ?thesis by auto
qed


definition tun_demo_packet :: bytes where
  "tun_demo_packet = [0x45, 0, 0, 20, 0, 0, 0, 0, 64, 17, 0, 0, 10, 8, 0, 2, 10, 8, 0, 2]"

lemma tun_demo_parse: "parse_ipv4_src_dst tun_demo_packet = Some (Ipv4Addr 10 8 0 2, Ipv4Addr 10 8 0 2)"
  by code_simp


end
