(* ===== verification/Captures.thy ===== *)
theory Captures
  imports Strings "HOL-Library.Sublist"
begin

text \<open>
  The two size-limited capture files of the server: the tunnel capture of \<^verbatim>\<open>tunnel_pcap.rs\<close> and
  the bridge dump of \<^verbatim>\<open>smoltcp_forwarder.rs\<close>.  A write either succeeds or fails after some of
  its bytes; \<open>cl_file\<close> is what the file holds.
\<close>

record cap_log =
  cl_file :: bytes
  cl_bytes_written :: u64
  cl_max_bytes :: u64
  cl_stopped_at_limit :: bool

datatype write_result = Written | Failed nat

fun file_write :: "write_result \<Rightarrow> bytes \<Rightarrow> cap_log \<Rightarrow> cap_log" where
  "file_write Written b l = l\<lparr> cl_file := cl_file l @ b \<rparr>"
| "file_write (Failed n) b l = l\<lparr> cl_file := cl_file l @ take n b \<rparr>"

text \<open>\<^verbatim>\<open>checked_mul\<close> of a number of megabytes.\<close>

definition megabytes :: "nat \<Rightarrow> u64 option" where
  "megabytes n = (if n * (1024 * 1024) < 2 ^ 64 then Some (of_nat (n * (1024 * 1024))) else None)"

definition stop_at_limit :: "cap_log \<Rightarrow> cap_log" where
  "stop_at_limit l = l\<lparr> cl_stopped_at_limit := True \<rparr>"

subsection \<open>Tunnel capture\<close>

definition PCAP_GLOBAL_HEADER_LEN :: nat where "PCAP_GLOBAL_HEADER_LEN = 24"
definition PCAP_RECORD_HEADER_LEN :: nat where "PCAP_RECORD_HEADER_LEN = 16"

definition build_global_header :: bytes where
  "build_global_header =
     le_u32 0xa1b2c3d4 @ le_u16 2 @ le_u16 4 @ le_u32 0 @ le_u32 0 @ le_u32 65535 @ le_u32 101"

definition build_record_header :: "u32 \<Rightarrow> u32 \<Rightarrow> u32 \<Rightarrow> u32 \<Rightarrow> bytes" where
  "build_record_header ts_sec ts_usec incl_len orig_len =
     le_u32 ts_sec @ le_u32 ts_usec @ le_u32 incl_len @ le_u32 orig_len"

datatype PcapError = PcapNotANumber | PcapZero | PcapOverflow | PcapIo

definition pcap_from_env :: "bool \<Rightarrow> string option \<Rightarrow> (PcapError, cap_log option) res" where
  "pcap_from_env io_ok env =
     (case env of
        None \<Rightarrow> Ok None
      | Some v \<Rightarrow>
          (case parse_uint (2 ^ 64 - 1) (trim v) of
             None \<Rightarrow> Err PcapNotANumber
           | Some max_mb \<Rightarrow>
               if max_mb = 0 then Err PcapZero
               else case megabytes max_mb of
                      None \<Rightarrow> Err PcapOverflow
                    | Some max_bytes \<Rightarrow>
                        if \<not> io_ok then Err PcapIo
                        else Ok (Some \<lparr> cl_file = build_global_header,
                                        cl_bytes_written = of_nat PCAP_GLOBAL_HEADER_LEN,
                                        cl_max_bytes = max_bytes, cl_stopped_at_limit = False \<rparr>)))"

definition log_packet ::
  "write_result \<Rightarrow> write_result \<Rightarrow> u32 \<times> u32 \<Rightarrow> bytes \<Rightarrow> cap_log \<Rightarrow> cap_log" where
  "log_packet w1 w2 ts packet l =
     (if packet = [] then l
      else if 2 ^ 64 \<le> PCAP_RECORD_HEADER_LEN + length packet then l
      else
        let record_len = of_nat (PCAP_RECORD_HEADER_LEN + length packet) :: u64
        in if cl_max_bytes l < saturating_add (cl_bytes_written l) record_len then stop_at_limit l
           else
             let (secs, usecs) = ts;
                 rec_header = build_record_header secs usecs (of_nat (length packet)) (of_nat (length packet));
                 l1 = file_write w1 rec_header l
             in if w1 \<noteq> Written then l1
                else
                  let l2 = file_write w2 packet l1
                  in if w2 \<noteq> Written then l2
                     else l2\<lparr> cl_bytes_written := saturating_add (cl_bytes_written l2) record_len \<rparr>)"

subsection \<open>Bridge dump\<close>

datatype TcpBridgeDumpDirection = SmoltcpToRemote | RemoteToSmoltcp

fun direction_code :: "TcpBridgeDumpDirection \<Rightarrow> byte" where
  "direction_code SmoltcpToRemote = 1"
| "direction_code RemoteToSmoltcp = 2"

definition le_u64 :: "u64 \<Rightarrow> bytes" where "le_u64 w = rev (put_u64 w)"

definition dump_magic :: bytes where
  "dump_magic = map (\<lambda>c. of_nat (of_char c)) ''BNDBRDG1''"

definition dump_from_env :: "bool \<Rightarrow> string option \<Rightarrow> cap_log option" where
  "dump_from_env io_ok env =
     (case env of
        None \<Rightarrow> None
      | Some raw \<Rightarrow>
          (case parse_uint (2 ^ 64 - 1) (trim raw) of
             None \<Rightarrow> None
           | Some max_mb \<Rightarrow>
               if max_mb = 0 then None
               else case megabytes max_mb of
                      None \<Rightarrow> None
                    | Some max_bytes \<Rightarrow>
                        if \<not> io_ok then None
                        else Some \<lparr> cl_file = dump_magic, cl_bytes_written = 8, cl_max_bytes = max_bytes,
                                    cl_stopped_at_limit = False \<rparr>))"

definition dump_header :: "u64 \<Rightarrow> u64 \<Rightarrow> u32 \<Rightarrow> TcpBridgeDumpDirection \<Rightarrow> nat \<Rightarrow> bytes" where
  "dump_header ts_micros session_id conn_id direction len =
     le_u64 ts_micros @ le_u64 session_id @ le_u32 conn_id @ [direction_code direction, 0, 0, 0] @
     le_u32 (of_nat len) @ [0, 0, 0, 0]"

definition dump_record ::
  "write_result \<Rightarrow> write_result \<Rightarrow> u64 \<Rightarrow> u64 \<Rightarrow> u32 \<Rightarrow> TcpBridgeDumpDirection \<Rightarrow> bytes \<Rightarrow> cap_log \<Rightarrow> cap_log" where
  "dump_record w1 w2 ts_micros session_id conn_id direction payload l =
     (if payload = [] then l
      else
        let payload_len = of_nat (length payload) :: u64;
            rec_len = saturating_add 32 payload_len
        in if cl_max_bytes l < saturating_add (cl_bytes_written l) rec_len then stop_at_limit l
           else
             let l1 = file_write w1 (dump_header ts_micros session_id conn_id direction (length payload)) l
             in if w1 \<noteq> Written then l1
                else
                  let l2 = file_write w2 payload l1
                  in if w2 \<noteq> Written then l2
                     else l2\<lparr> cl_bytes_written := saturating_add (cl_bytes_written l2) rec_len \<rparr>)"

subsection \<open>A capped log\<close>

text \<open>
  What both writers promise while writes succeed: an entry is either dropped, or its record
  is appended and counted, and then the count stays within the limit.
\<close>

locale capped_log =
  fixes record_of :: "'e \<Rightarrow> bytes"
    and log_entry :: "'e \<Rightarrow> cap_log \<Rightarrow> cap_log"
    and small :: "'e \<Rightarrow> bool"
  assumes log_cases: "small e \<Longrightarrow> log_entry e l = l \<or> log_entry e l = stop_at_limit l \<or>
      log_entry e l = l\<lparr> cl_file := cl_file l @ record_of e,
                        cl_bytes_written := saturating_add (cl_bytes_written l) (of_nat (length (record_of e))) \<rparr> \<and>
      saturating_add (cl_bytes_written l) (of_nat (length (record_of e))) \<le> cl_max_bytes l"
    and small_length: "small e \<Longrightarrow> length (record_of e) < 2 ^ 64"
begin

definition fits :: "cap_log \<Rightarrow> bool" where
  "fits l \<longleftrightarrow> unat (cl_bytes_written l) = length (cl_file l) \<and> cl_bytes_written l \<le> cl_max_bytes l \<and> cl_max_bytes l < - 1"

lemma log_entry_fits:
  assumes "small e" "fits l"
  shows "fits (log_entry e l) \<and> cl_max_bytes (log_entry e l) = cl_max_bytes l \<and>
    (cl_file (log_entry e l) = cl_file l \<or> cl_file (log_entry e l) = cl_file l @ record_of e)"
proof -
  let ?n = "of_nat (length (record_of e)) :: u64"
  have n: "unat ?n = length (record_of e)" using small_length [OF assms(1)] by (simp add: unat_of_nat_small)
  consider "log_entry e l = l" | "log_entry e l = stop_at_limit l"
    | "log_entry e l = l\<lparr> cl_file := cl_file l @ record_of e, cl_bytes_written := saturating_add (cl_bytes_written l) ?n \<rparr>"
      "saturating_add (cl_bytes_written l) ?n \<le> cl_max_bytes l"
    using log_cases [OF assms(1)] by blast
  then show ?thesis
  proof cases
    case 3
    have "saturating_add (cl_bytes_written l) ?n < - 1"
      using 3(2) assms(2) le_less_trans unfolding fits_def by blast
    then have "unat (saturating_add (cl_bytes_written l) ?n) = unat (cl_bytes_written l) + unat ?n"
      by (auto simp: saturating_add_def unat_word_ariths split: if_splits)
    with 3 assms(2) n show ?thesis by (simp add: fits_def)
  qed (use assms(2) in \<open>simp_all add: fits_def stop_at_limit_def\<close>)
qed

lemma log_all_fits:
  assumes "\<forall>e \<in> set es. small e" "fits l"
  shows "fits (fold log_entry es l) \<and> cl_max_bytes (fold log_entry es l) = cl_max_bytes l \<and>
    (\<exists>kept. subseq kept es \<and> cl_file (fold log_entry es l) = cl_file l @ concat (map record_of kept))"
  using assms
proof (induction es arbitrary: l)
  case (Cons e es)
  note e = log_entry_fits [of e l]
  have IH: "fits (fold log_entry es (log_entry e l)) \<and>
      cl_max_bytes (fold log_entry es (log_entry e l)) = cl_max_bytes (log_entry e l) \<and>
      (\<exists>kept. subseq kept es \<and>
         cl_file (fold log_entry es (log_entry e l)) = cl_file (log_entry e l) @ concat (map record_of kept))"
    using Cons e by simp
  then obtain kept where k: "subseq kept es"
    "cl_file (fold log_entry es (log_entry e l)) = cl_file (log_entry e l) @ concat (map record_of kept)" by blast
  have "\<exists>kept. subseq kept (e # es) \<and>
      cl_file (fold log_entry es (log_entry e l)) = cl_file l @ concat (map record_of kept)"
  proof (cases "cl_file (log_entry e l) = cl_file l")
    case True with k show ?thesis by (intro exI [of _ kept]) auto
  next
    case False
    with e Cons.prems k show ?thesis by (intro exI [of _ "e # kept"]) auto
  qed
  with IH e Cons.prems show ?case by simp
qed (auto intro: exI [of _ "[]"])

end

subsection \<open>Both writers are capped logs\<close>

definition pcap_record :: "(u32 \<times> u32) \<times> bytes \<Rightarrow> bytes" where
  "pcap_record e = build_record_header (fst (fst e)) (snd (fst e)) (of_nat (length (snd e))) (of_nat (length (snd e))) @ snd e"

lemma length_le [simp]: "length (le_u32 w) = 4" "length (le_u16 v) = 2" "length (le_u64 x) = 8"
  by (simp_all add: le_u32_def le_u16_def le_u64_def put_u32_def put_u16_def put_u64_def)

lemma length_pcap_record: "length (pcap_record e) = PCAP_RECORD_HEADER_LEN + length (snd e)"
  by (simp add: pcap_record_def build_record_header_def PCAP_RECORD_HEADER_LEN_def)

interpretation pcap_log: capped_log pcap_record "\<lambda>e. log_packet Written Written (fst e) (snd e)"
    "\<lambda>e. PCAP_RECORD_HEADER_LEN + length (snd e) < 2 ^ 64"
  by unfold_locales
    (auto simp: length_pcap_record log_packet_def Let_def not_less, auto simp: pcap_record_def split: prod.split)

definition dump_entry_record :: "u64 \<times> u64 \<times> u32 \<times> TcpBridgeDumpDirection \<times> bytes \<Rightarrow> bytes" where
  "dump_entry_record = (\<lambda>(ts, sid, cid, dir, payload). dump_header ts sid cid dir (length payload) @ payload)"

lemma length_dump_record:
  "length (dump_entry_record (ts, sid, cid, dir, payload)) = 32 + length payload"
  by (simp add: dump_entry_record_def dump_header_def)

lemma dump_rec_len:
  "32 + n < 2 ^ 64 \<Longrightarrow> saturating_add 32 (of_nat n) = (of_nat (32 + n) :: u64)"
  by (simp add: saturating_add_def unat_of_nat_small)

lemma dump_record_written:
  assumes "32 + length payload < 2 ^ 64"
  shows "dump_record Written Written ts sid cid dir payload l =
    (let n = of_nat (length (dump_entry_record (ts, sid, cid, dir, payload)))
     in if payload = [] then l
        else if cl_max_bytes l < saturating_add (cl_bytes_written l) n then stop_at_limit l
        else l\<lparr> cl_file := cl_file l @ dump_entry_record (ts, sid, cid, dir, payload),
                cl_bytes_written := saturating_add (cl_bytes_written l) n \<rparr>)"
  unfolding length_dump_record dump_rec_len [OF assms, symmetric]
  by (simp add: dump_record_def Let_def dump_entry_record_def)

interpretation dump_log: capped_log dump_entry_record
    "\<lambda>(ts, sid, cid, dir, payload). dump_record Written Written ts sid cid dir payload"
    "\<lambda>(ts, sid, cid, dir, payload). 32 + length payload < 2 ^ 64"
proof (unfold_locales, goal_cases)
  case (1 e l)
  then show ?case by (cases e) (auto simp: dump_record_written Let_def not_less)
next
  case (2 e)
  then show ?case by (cases e) (simp add: length_dump_record)
qed

subsection \<open>Reading a capture back\<close>

definition get_le_u32 :: "bytes \<Rightarrow> u32" where "get_le_u32 b = get_u32 (rev (take 4 b))"

text \<open>A reader of the capture format: it follows the lengths of the record headers.\<close>

function pcap_packets :: "bytes \<Rightarrow> bytes list" where
  "pcap_packets b =
     (if length b < 16 then []
      else let n = unat (get_le_u32 (drop 8 b)) in take n (drop 16 b) # pcap_packets (drop (16 + n) b))"
  by pat_completeness auto
termination by (relation "measure length") auto

declare pcap_packets.simps [simp del]

lemma get_le_put [simp]: "get_le_u32 (le_u32 w @ r) = w"
  using get_put_u32 [of w "[]"] by (simp add: get_le_u32_def) (simp add: le_u32_def)

lemma pcap_packets_record:
  assumes "length (snd e) < 2 ^ 32"
  shows "pcap_packets (pcap_record e @ rest) = snd e # pcap_packets rest"
proof -
  have h: "drop 8 (pcap_record e @ rest) = le_u32 (of_nat (length (snd e))) @ le_u32 (of_nat (length (snd e))) @ snd e @ rest"
    by (simp add: pcap_record_def build_record_header_def)
  have "unat (get_le_u32 (drop 8 (pcap_record e @ rest))) = length (snd e)"
    unfolding h using assms by (simp add: unat_of_nat_small)
  moreover have "drop 16 (pcap_record e @ rest) = snd e @ rest"
    by (simp add: pcap_record_def build_record_header_def)
  moreover have "drop (16 + length (snd e)) (pcap_record e @ rest) = rest"
    by (simp add: pcap_record_def build_record_header_def)
  moreover have "\<not> length (pcap_record e @ rest) < 16" by (simp add: length_pcap_record PCAP_RECORD_HEADER_LEN_def)
  ultimately show ?thesis by (subst pcap_packets.simps) (simp add: Let_def)
qed

lemma pcap_packets_records:
  "\<forall>e \<in> set es. length (snd e) < 2 ^ 32 \<Longrightarrow> pcap_packets (concat (map pcap_record es)) = map snd es"
proof (induction es)
  case Nil show ?case by (subst pcap_packets.simps) simp
qed (simp add: pcap_packets_record)

text \<open>
  C29.  While writes succeed, a tunnel capture opened with a limit never grows beyond it, its byte
  counter is the size of the file, and the file is the format's header followed by records that
  read back as a subsequence of the packets that were logged.
\<close>

theorem pcap_capture:
  assumes "pcap_from_env True env = Ok (Some l)" "\<forall>(ts, p) \<in> set es. length p < 2 ^ 32"
    and "l' = fold (\<lambda>(ts, p). log_packet Written Written ts p) es l"
  shows "unat (cl_bytes_written l') = length (cl_file l') \<and> cl_bytes_written l' \<le> cl_max_bytes l \<and>
    take 24 (cl_file l') = build_global_header \<and>
    (\<exists>kept. subseq kept es \<and> pcap_packets (drop 24 (cl_file l')) = map snd kept)"
proof -
  from assms(1) obtain n where n: "0 < n" "megabytes n = Some (cl_max_bytes l)"
    and l: "l = \<lparr> cl_file = build_global_header, cl_bytes_written = of_nat PCAP_GLOBAL_HEADER_LEN,
                  cl_max_bytes = cl_max_bytes l, cl_stopped_at_limit = False \<rparr>"
    by (auto simp: pcap_from_env_def split: option.splits if_splits)
  have hd: "length build_global_header = 24" by (simp add: build_global_header_def)
  have lt: "n * (1024 * 1024) < 2 ^ 64" and eq1: "cl_max_bytes l = of_nat (n * (1024 * 1024))"
    using n(2) unfolding megabytes_def by (cases "n * (1024 * 1024) < 2 ^ 64"; simp)+
  have max: "unat (cl_max_bytes l) = n * (1024 * 1024)" "n * (1024 * 1024) < 2 ^ 64"
    using unat_of_nat_small [where 'a = 64 and n = "n * (1024 * 1024)"] lt unfolding eq1 by simp_all
  have "even (n * (1024 * 1024))" "odd (2 ^ 64 - 1 :: nat)" by simp_all
  then have "n * (1024 * 1024) \<noteq> 2 ^ 64 - 1" by metis
  with max n(1) have "24 \<le> unat (cl_max_bytes l)" "unat (cl_max_bytes l) < 2 ^ 64 - 1" by linarith+
  then have fits: "pcap_log.fits l"
    by (subst l) (simp add: pcap_log.fits_def hd PCAP_GLOBAL_HEADER_LEN_def word_le_nat_alt word_less_nat_alt
        unsigned_minus_1_eq_mask mask_eq_exp_minus_1)
  have eq: "l' = fold (\<lambda>e. log_packet Written Written (fst e) (snd e)) es l"
    by (simp add: assms(3) case_prod_beta')
  have small: "\<forall>e \<in> set es. PCAP_RECORD_HEADER_LEN + length (snd e) < 2 ^ 64"
    using assms(2) by (auto simp: PCAP_RECORD_HEADER_LEN_def)
  note r = pcap_log.log_all_fits [OF small fits, folded eq]
  moreover have "cl_file l = build_global_header" by (subst l) simp
  ultimately obtain kept where k: "subseq kept es" "cl_file l' = build_global_header @ concat (map pcap_record kept)"
    by auto
  have "\<forall>e \<in> set kept. length (snd e) < 2 ^ 32"
    using assms(2) list_emb_set [OF k(1)] by fastforce
  from pcap_packets_records [OF this] k hd r show ?thesis
    unfolding pcap_log.fits_def by auto
qed

theorem pcap_capture_witness:
  "\<exists>l. pcap_from_env True (Some ''1'') = Ok (Some l) \<and>
     cl_bytes_written (fold (\<lambda>(ts, p). log_packet Written Written ts p) [((1, 2), [9, 9])] l) \<le> cl_max_bytes l"
proof -
  have "parse_uint (2 ^ 64 - 1) (trim ''1'') = Some 1"
    by (simp add: parse_uint_def trim_def trim_start_def trim_end_def is_white_def is_digit_def digit_val_def)
  then obtain l where l: "pcap_from_env True (Some ''1'') = Ok (Some l)"
    by (simp add: pcap_from_env_def megabytes_def)
  from pcap_capture [OF l, of "[((1, 2), [9, 9])]"] l show ?thesis by auto
qed

end
