(* ===== verification/NetRuntime.thy ===== *)
theory NetRuntime
  imports Strings
begin

text \<open>
  Starting and stopping of the TUN forwarding of the server (\<^verbatim>\<open>network_runtime.rs\<close>).  The host is a
  record of what the code reads and changes: the rules of \<^verbatim>\<open>iptables\<close>, the forwarding switch, the
  TUN interface and the routing table.  Whether an external command succeeds is part of the host.
\<close>

subsection \<open>CIDR\<close>

fun u32_of_ipv4 :: "Ipv4Addr \<Rightarrow> u32" where
  "u32_of_ipv4 (Ipv4Addr a b c d) = get_u32 [a, b, c, d]"

definition ipv4_of_u32 :: "u32 \<Rightarrow> Ipv4Addr" where
  "ipv4_of_u32 w = addr_at 0 (put_u32 w)"

datatype CidrError = BadFormat | BadAddress | BadPrefix | PrefixTooLong

definition parse_cidr :: "string \<Rightarrow> (CidrError, Ipv4Addr \<times> byte) res" where
  "parse_cidr cidr =
     (case split_once (CHR ''/'') cidr of
        None \<Rightarrow> Err BadFormat
      | Some (addr_str, prefix_str) \<Rightarrow>
          (case parse_ipv4 addr_str of
             None \<Rightarrow> Err BadAddress
           | Some addr \<Rightarrow>
               (case parse_uint 255 prefix_str of
                  None \<Rightarrow> Err BadPrefix
                | Some prefix \<Rightarrow> if 32 < prefix then Err PrefixTooLong else Ok (addr, of_nat prefix))))"

definition prefix_mask :: "byte \<Rightarrow> u32" where
  "prefix_mask prefix = push_bit (32 - unat prefix) (- 1)"

definition prefix_to_netmask :: "byte \<Rightarrow> Ipv4Addr" where
  "prefix_to_netmask prefix = (if prefix = 0 then Ipv4Addr 0 0 0 0 else ipv4_of_u32 (prefix_mask prefix))"

definition cidr_network :: "Ipv4Addr \<Rightarrow> byte \<Rightarrow> Ipv4Addr" where
  "cidr_network addr prefix =
     (if prefix = 0 then Ipv4Addr 0 0 0 0 else ipv4_of_u32 (u32_of_ipv4 addr AND prefix_mask prefix))"

subsection \<open>The host\<close>

type_synonym ipt_rule = "string \<times> string list"

record net_host =
  nh_linux :: bool
  nh_dev_tun :: bool
  nh_tools :: "string list"
  nh_rules :: "ipt_rule list"
  nh_ipt_ok :: "string \<Rightarrow> ipt_rule \<Rightarrow> bool"
  nh_ip_forward :: "string option"
  nh_ip_forward_writable :: bool
  nh_tun_creates :: bool
  nh_tun_up :: "(Ipv4Addr \<times> Ipv4Addr \<times> u16) option"
  nh_ifconfig_ok :: bool
  nh_routes :: "string option"

record net_config =
  nc_forwarding_mode :: string
  nc_tun_name :: string
  nc_tun_cidr :: string
  nc_tun_mtu :: u16
  nc_tun_egress_interface :: string

record NetworkRuntime =
  nr_tun_name :: string
  nr_original_ip_forward :: "string option"
  nr_masquerade_rule_installed :: bool
  nr_forward_out_rule_installed :: bool
  nr_forward_in_rule_installed :: bool
  nr_forwarding_mode_tun :: bool
  nr_tun_subnet :: "string option"
  nr_egress_interface :: "string option"

datatype NetError =
    NotLinux | NoDevTun | ToolMissing string | CidrInvalid CidrError | TunFailed | IfconfigFailed
  | RoutesUnreadable | NoEgress | ForwardSwitch | IptablesFailed

subsection \<open>Rules\<close>

definition rule_exists :: "net_host \<Rightarrow> ipt_rule \<Rightarrow> bool" where
  "rule_exists h r \<longleftrightarrow> r \<in> set (nh_rules h)"

text \<open>\<^verbatim>\<open>-A\<close> appends a rule, \<^verbatim>\<open>-D\<close> deletes the first one that matches.\<close>

definition ensure_rule :: "ipt_rule \<Rightarrow> net_host \<Rightarrow> net_host \<times> bool option" where
  "ensure_rule r h =
     (if rule_exists h r then (h, Some False)
      else if nh_ipt_ok h ''-A'' r then (h\<lparr> nh_rules := nh_rules h @ [r] \<rparr>, Some True)
      else (h, None))"

definition remove_rule :: "ipt_rule \<Rightarrow> net_host \<Rightarrow> net_host" where
  "remove_rule r h =
     (if \<not> rule_exists h r then h
      else if nh_ipt_ok h ''-D'' r then h\<lparr> nh_rules := remove1 r (nh_rules h) \<rparr>
      else h)"

definition masquerade_rule :: "string \<Rightarrow> string \<Rightarrow> ipt_rule" where
  "masquerade_rule subnet egress =
     (''nat'', [''POSTROUTING'', ''-s'', subnet, ''-o'', egress, ''-j'', ''MASQUERADE''])"

definition forward_out_rule :: "string \<Rightarrow> string \<Rightarrow> ipt_rule" where
  "forward_out_rule tun egress = (''filter'', [''FORWARD'', ''-i'', tun, ''-o'', egress, ''-j'', ''ACCEPT''])"

definition forward_in_rule :: "string \<Rightarrow> string \<Rightarrow> ipt_rule" where
  "forward_in_rule tun egress =
     (''filter'', [''FORWARD'', ''-i'', egress, ''-o'', tun, ''-m'', ''state'', ''--state'', ''RELATED,ESTABLISHED'',
                   ''-j'', ''ACCEPT''])"

definition ensure_iptables_rules ::
  "string \<Rightarrow> string \<Rightarrow> NetworkRuntime \<Rightarrow> net_host \<Rightarrow> net_host \<times> NetworkRuntime \<times> bool" where
  "ensure_iptables_rules subnet egress rt h =
     (case ensure_rule (masquerade_rule subnet egress) h of
        (h, None) \<Rightarrow> (h, rt, False)
      | (h, Some m) \<Rightarrow>
          let rt = rt\<lparr> nr_masquerade_rule_installed := m \<rparr>
          in case ensure_rule (forward_out_rule (nr_tun_name rt) egress) h of
               (h, None) \<Rightarrow> (h, rt, False)
             | (h, Some out) \<Rightarrow>
                 let rt = rt\<lparr> nr_forward_out_rule_installed := out \<rparr>
                 in case ensure_rule (forward_in_rule (nr_tun_name rt) egress) h of
                      (h, None) \<Rightarrow> (h, rt, False)
                    | (h, Some i) \<Rightarrow> (h, rt\<lparr> nr_forward_in_rule_installed := i \<rparr>, True))"

text \<open>\<^verbatim>\<open>Drop\<close>.\<close>

definition runtime_drop :: "NetworkRuntime \<Rightarrow> net_host \<Rightarrow> net_host" where
  "runtime_drop rt h =
     (if \<not> nr_forwarding_mode_tun rt then h
      else
        let h = (case nr_egress_interface rt of
                   None \<Rightarrow> h
                 | Some egress \<Rightarrow>
                     let h = (if nr_forward_in_rule_installed rt
                              then remove_rule (forward_in_rule (nr_tun_name rt) egress) h else h)
                     in if nr_forward_out_rule_installed rt
                        then remove_rule (forward_out_rule (nr_tun_name rt) egress) h else h);
            h = (if nr_masquerade_rule_installed rt
                 then case (nr_tun_subnet rt, nr_egress_interface rt) of
                        (Some subnet, Some egress) \<Rightarrow> remove_rule (masquerade_rule subnet egress) h
                      | _ \<Rightarrow> h
                 else h);
            h = (case nr_original_ip_forward rt of
                   None \<Rightarrow> h
                 | Some v \<Rightarrow> if nh_ip_forward_writable h then h\<lparr> nh_ip_forward := Some (v @ [CHR 0x0A]) \<rparr> else h)
        in if nh_ifconfig_ok h then h\<lparr> nh_tun_up := None \<rparr> else h)"

subsection \<open>Egress interface\<close>

fun default_route :: "string list \<Rightarrow> string option" where
  "default_route [] = None"
| "default_route (l # ls) =
     (case split_ws [] l of
        iface # dest # _ \<Rightarrow> if dest = ''00000000'' then Some iface else default_route ls
      | _ \<Rightarrow> default_route ls)"

definition detect_default_egress_interface :: "net_host \<Rightarrow> (NetError, string option) res" where
  "detect_default_egress_interface h =
     (case nh_routes h of
        None \<Rightarrow> Err RoutesUnreadable
      | Some contents \<Rightarrow> Ok (default_route (drop 1 (str_lines contents))))"

definition select_egress :: "net_config \<Rightarrow> net_host \<Rightarrow> (NetError, string) res" where
  "select_egress cfg h =
     (if trim (nc_tun_egress_interface cfg) = []
      then res_bind (detect_default_egress_interface h) (ok_or NoEgress)
      else Ok (nc_tun_egress_interface cfg))"

subsection \<open>Start\<close>

definition net_checks :: "net_config \<Rightarrow> net_host \<Rightarrow> (NetError, Ipv4Addr \<times> byte) res" where
  "net_checks cfg h =
     (if \<not> nh_linux h then Err NotLinux
      else if \<not> nh_dev_tun h then Err NoDevTun
      else if ''ifconfig'' \<notin> set (nh_tools h) then Err (ToolMissing ''ifconfig'')
      else if ''iptables'' \<notin> set (nh_tools h) then Err (ToolMissing ''iptables'')
      else case parse_cidr (nc_tun_cidr cfg) of Inl e \<Rightarrow> Err (CidrInvalid e) | Inr ap \<Rightarrow> Ok ap)"

definition net_setup :: "net_config \<Rightarrow> net_host \<Rightarrow> net_host \<times> (NetError, NetworkRuntime) res" where
  "net_setup cfg h =
     (if \<not> eq_ignore_ascii_case (nc_forwarding_mode cfg) ''tun'' then
        (h, Ok \<lparr> nr_tun_name = nc_tun_name cfg, nr_original_ip_forward = None,
                 nr_masquerade_rule_installed = False, nr_forward_out_rule_installed = False,
                 nr_forward_in_rule_installed = False, nr_forwarding_mode_tun = False,
                 nr_tun_subnet = None, nr_egress_interface = None \<rparr>)
      else
        case net_checks cfg h of
          Inl e \<Rightarrow> (h, Err e)
        | Inr (tun_addr, prefix) \<Rightarrow>
            let tun_subnet = show_ipv4 (cidr_network tun_addr prefix) @ ''/'' @ show_nat (unat prefix)
            in if \<not> nh_tun_creates h then (h, Err TunFailed)
               else if \<not> nh_ifconfig_ok h then (h, Err IfconfigFailed)
               else
                 let h = h\<lparr> nh_tun_up := Some (tun_addr, prefix_to_netmask prefix, nc_tun_mtu cfg) \<rparr>
                 in case select_egress cfg h of
                      Inl e \<Rightarrow> (h, Err e)
                    | Inr egress \<Rightarrow>
                        let original = map_option trim (nh_ip_forward h)
                        in if \<not> nh_ip_forward_writable h then (h, Err ForwardSwitch)
                           else
                             let h = h\<lparr> nh_ip_forward := Some [CHR ''1'', CHR 0x0A] \<rparr>;
                                 rt = \<lparr> nr_tun_name = nc_tun_name cfg, nr_original_ip_forward = original,
                                        nr_masquerade_rule_installed = False,
                                        nr_forward_out_rule_installed = False,
                                        nr_forward_in_rule_installed = False, nr_forwarding_mode_tun = True,
                                        nr_tun_subnet = Some tun_subnet, nr_egress_interface = Some egress \<rparr>
                             in case ensure_iptables_rules tun_subnet egress rt h of
                                  (h, rt, True) \<Rightarrow> (h, Ok rt)
                                | (h, rt, False) \<Rightarrow> (runtime_drop rt h, Err IptablesFailed))"

subsection \<open>Laws\<close>

lemma bit_prefix_mask: "bit (prefix_mask p) i \<longleftrightarrow> 32 - unat p \<le> i \<and> i < 32"
  by (auto simp: prefix_mask_def bit_not_iff bit_mask_iff possible_bit_def)

lemma put_u32_list: "\<exists>a b c d. put_u32 w = [a, b, c, d]"
proof -
  obtain a b c d rest where "put_u32 w = a # b # c # d # rest"
    using list_at_least_4 [of "put_u32 w"] length_put(2) [of w] by auto
  with length_put(2) [of w] show ?thesis by simp
qed

lemma u32_ipv4 [simp]: "u32_of_ipv4 (ipv4_of_u32 w) = w"
proof -
  obtain a b c d where p: "put_u32 w = [a, b, c, d]" using put_u32_list by blast
  then have "ipv4_of_u32 w = Ipv4Addr a b c d" by (simp add: ipv4_of_u32_def addr_at_def)
  then have "u32_of_ipv4 (ipv4_of_u32 w) = get_u32 (put_u32 w)" by (simp add: p)
  then show ?thesis using get_put_u32 [of w "[]"] by simp
qed

lemma u32_of_zero: "get_u32 [0, 0, 0, 0] = 0"
  by (simp add: get_u32_def be_nat_def)

lemma remove1_last: "x \<notin> set xs \<Longrightarrow> remove1 x (xs @ [x]) = xs"
  by (simp add: remove1_append)

lemma parse_cidr_show:
  assumes "unat p \<le> 32"
  shows "parse_cidr (show_ipv4 a @ ''/'' @ show_nat (unat p)) = Ok (a, p)"
proof -
  have "CHR ''/'' \<notin> set (show_ipv4 a)"
  proof (cases a)
    case (Ipv4Addr w x y z)
    have "CHR ''/'' \<notin> set (show_nat n)" for n using show_nat_digits [of n] by (auto simp: is_digit_def)
    then show ?thesis by (simp add: Ipv4Addr)
  qed
  then show ?thesis using assms by (simp add: parse_cidr_def split_once_append)
qed

text \<open>
  A CIDR string made of an address and a prefix length up to 32 parses back to them, and the
  network address computed from it keeps exactly the leading prefix bits of the address: the
  netmask has these bits set and no other.
\<close>

theorem cidr_bits:
  assumes "unat p \<le> 32"
  shows "parse_cidr (show_ipv4 a @ ''/'' @ show_nat (unat p)) = Ok (a, p) \<and>
    (\<forall>i. bit (u32_of_ipv4 (cidr_network a p)) i \<longleftrightarrow> 32 - unat p \<le> i \<and> bit (u32_of_ipv4 a) i) \<and>
    (\<forall>i. bit (u32_of_ipv4 (prefix_to_netmask p)) i \<longleftrightarrow> 32 - unat p \<le> i \<and> i < 32)"
proof (intro conjI allI)
  show "parse_cidr (show_ipv4 a @ ''/'' @ show_nat (unat p)) = Ok (a, p)" by (rule parse_cidr_show [OF assms])
next
  fix i
  have "i < 32" if "bit (u32_of_ipv4 a) i" using bit_imp_le_length [OF that] by simp
  then show "bit (u32_of_ipv4 (cidr_network a p)) i \<longleftrightarrow> 32 - unat p \<le> i \<and> bit (u32_of_ipv4 a) i"
    by (auto simp: cidr_network_def u32_of_zero bit_and_iff bit_prefix_mask)
  show "bit (u32_of_ipv4 (prefix_to_netmask p)) i \<longleftrightarrow> 32 - unat p \<le> i \<and> i < 32"
    by (auto simp: prefix_to_netmask_def u32_of_zero bit_prefix_mask)
qed

theorem cidr_bits_witness:
  "parse_cidr (show_ipv4 (Ipv4Addr 100 64 0 1) @ ''/'' @ show_nat (unat (24 :: byte))) = Ok (Ipv4Addr 100 64 0 1, 24)"
  using cidr_bits [of 24 "Ipv4Addr 100 64 0 1"] by simp

definition deletes_work :: "net_host \<Rightarrow> bool" where
  "deletes_work h \<longleftrightarrow> (\<forall>r. nh_ipt_ok h ''-D'' r)"

text \<open>Removing a rule undoes having installed it; a rule that was not installed changed nothing.\<close>

lemma remove_ensured:
  assumes "ensure_rule r h = (h1, x)" "deletes_work h"
  shows "(x = Some True \<longrightarrow> remove_rule r h1 = h) \<and> (x \<noteq> Some True \<longrightarrow> h1 = h) \<and> deletes_work h1"
  using assms
  by (auto simp: ensure_rule_def remove_rule_def rule_exists_def deletes_work_def remove1_append
      simp del: split_paired_All split: if_splits)

lemma ensure_then_drop:
  assumes "ensure_iptables_rules subnet egress rt h = (h', rt', ok)" "deletes_work h"
    and "nr_tun_subnet rt = Some subnet" "nr_egress_interface rt = Some egress" "nr_forwarding_mode_tun rt"
    and "\<not> nr_masquerade_rule_installed rt" "\<not> nr_forward_out_rule_installed rt" "\<not> nr_forward_in_rule_installed rt"
  shows "runtime_drop rt' h' = runtime_drop rt h \<and> nr_forwarding_mode_tun rt'"
proof -
  let ?out = "forward_out_rule (nr_tun_name rt) egress" and ?in = "forward_in_rule (nr_tun_name rt) egress"
  obtain h1 x1 where e1: "ensure_rule (masquerade_rule subnet egress) h = (h1, x1)" by fastforce
  note u1 = remove_ensured [OF e1 assms(2)]
  obtain h2 x2 where e2: "ensure_rule ?out h1 = (h2, x2)" by fastforce
  note u2 = remove_ensured [OF e2 u1 [THEN conjunct2, THEN conjunct2]]
  obtain h3 x3 where e3: "ensure_rule ?in h2 = (h3, x3)" by fastforce
  note u3 = remove_ensured [OF e3 u2 [THEN conjunct2, THEN conjunct2]]
  note runs = assms(1) [unfolded ensure_iptables_rules_def e1 Let_def, simplified]
  show ?thesis
  proof (cases x1)
    case None
    with runs u1 show ?thesis using assms(5) by simp
  next
    case m: (Some m)
    show ?thesis
    proof (cases x2)
      case None
      with runs m e2 u1 u2 show ?thesis using assms(3-)
        by (cases m; clarsimp) (simp_all add: runtime_drop_def)
    next
      case (Some i)
      with runs m e2 e3 u1 u2 u3 show ?thesis using assms(3-)
        by (cases m; cases i; cases "x3 = Some True"; cases x3; clarsimp) (simp_all add: runtime_drop_def)
    qed
  qed
qed

lemma drop_uninstalled:
  assumes "\<not> nr_masquerade_rule_installed rt" "\<not> nr_forward_out_rule_installed rt" "\<not> nr_forward_in_rule_installed rt"
  shows "nh_rules (runtime_drop rt h) = nh_rules h \<and>
    (nr_forwarding_mode_tun rt \<longrightarrow> nh_ip_forward_writable h \<longrightarrow>
       (\<forall>v. nr_original_ip_forward rt = Some v \<longrightarrow> nh_ip_forward (runtime_drop rt h) = Some (v @ [CHR 0x0A])))"
  using assms by (auto simp: runtime_drop_def Let_def split: option.splits)

text \<open>
  C30.  Provided \<^verbatim>\<open>iptables -D\<close> works, starting the TUN forwarding and dropping the runtime leaves the
  firewall rules exactly as they were, and restores the forwarding switch if it could be
  read; a start that fails leaves the rules as they were as well.
\<close>

theorem setup_drop_restores:
  assumes "net_setup cfg h = (h', r)" "\<forall>rule. nh_ipt_ok h ''-D'' rule"
  shows "(\<forall>e. r = Err e \<longrightarrow> nh_rules h' = nh_rules h) \<and>
    (\<forall>rt. r = Ok rt \<longrightarrow> nh_rules (runtime_drop rt h') = nh_rules h \<and>
       (nr_forwarding_mode_tun rt \<longrightarrow>
          (\<forall>v. nh_ip_forward h = Some v \<longrightarrow> nh_ip_forward (runtime_drop rt h') = Some (trim v @ [CHR 0x0A]))))"
proof (cases "eq_ignore_ascii_case (nc_forwarding_mode cfg) ''tun''")
  case False
  with assms show ?thesis by (auto simp: net_setup_def runtime_drop_def)
next
  case tun: True
  show ?thesis
  proof (cases "\<exists>a p egress. net_checks cfg h = Ok (a, p) \<and> nh_tun_creates h \<and> nh_ifconfig_ok h \<and>
      select_egress cfg (h\<lparr> nh_tun_up := Some (a, prefix_to_netmask p, nc_tun_mtu cfg) \<rparr>) = Ok egress \<and> nh_ip_forward_writable h")
    case False
    with assms tun show ?thesis
      by (auto simp: net_setup_def Let_def split: sum.splits prod.splits if_splits)
  next
    case True
    then obtain a p egress where c: "net_checks cfg h = Ok (a, p)" "nh_tun_creates h" "nh_ifconfig_ok h"
      "select_egress cfg (h\<lparr> nh_tun_up := Some (a, prefix_to_netmask p, nc_tun_mtu cfg) \<rparr>) = Ok egress" "nh_ip_forward_writable h" by blast
    let ?net = "show_ipv4 (cidr_network a p) @ ''/'' @ show_nat (unat p)"
    let ?h = "h\<lparr> nh_tun_up := Some (a, prefix_to_netmask p, nc_tun_mtu cfg), nh_ip_forward := Some [CHR ''1'', CHR 0x0A] \<rparr>"
    let ?rt = "\<lparr> nr_tun_name = nc_tun_name cfg, nr_original_ip_forward = map_option trim (nh_ip_forward h),
                 nr_masquerade_rule_installed = False, nr_forward_out_rule_installed = False,
                 nr_forward_in_rule_installed = False, nr_forwarding_mode_tun = True,
                 nr_tun_subnet = Some ?net, nr_egress_interface = Some egress \<rparr>"
    obtain h1 rt1 ok where e: "ensure_iptables_rules ?net egress ?rt ?h = (h1, rt1, ok)" by (metis prod_cases3)
    have d: "deletes_work ?h" using assms(2) by (simp add: deletes_work_def)
    have r: "(h', r) = (if ok then (h1, Ok rt1) else (runtime_drop rt1 h1, Err IptablesFailed))"
      using assms(1) tun c e by (cases ok) (simp_all add: net_setup_def Let_def)
    have "runtime_drop rt1 h1 = runtime_drop ?rt ?h \<and> nr_forwarding_mode_tun rt1"
      by (rule ensure_then_drop [OF e d]) simp_all
    with drop_uninstalled [of ?rt ?h] c(5) r show ?thesis by (cases ok) auto
  qed
qed

definition demo_host :: net_host where
  "demo_host = \<lparr> nh_linux = True, nh_dev_tun = True, nh_tools = [''ifconfig'', ''iptables''],
     nh_rules = [(''filter'', [''FORWARD'', ''-j'', ''DROP''])], nh_ipt_ok = (\<lambda>_ _. True), nh_ip_forward = Some ''0'',
     nh_ip_forward_writable = True, nh_tun_creates = True, nh_tun_up = None, nh_ifconfig_ok = True, nh_routes = None \<rparr>"

definition demo_config :: net_config where
  "demo_config = \<lparr> nc_forwarding_mode = ''TUN'', nc_tun_name = ''bonded0'', nc_tun_cidr = ''100.64.0.1/24'', nc_tun_mtu = 1420,
     nc_tun_egress_interface = ''eth0'' \<rparr>"

lemma demo_cidr: "\<exists>a p. parse_cidr ''100.64.0.1/24'' = Ok (a, p)"
proof -
  have "''100.64.0.1/24'' = show_ipv4 (Ipv4Addr 100 64 0 1) @ ''/'' @ show_nat (unat (24 :: byte))" by code_simp
  then show ?thesis using parse_cidr_show [of 24 "Ipv4Addr 100 64 0 1"] by simp
qed

lemma demo_setup: "case net_setup demo_config demo_host of (h', r) \<Rightarrow> \<not> isl r \<and> length (nh_rules h') = 4"
proof -
  obtain a p where c: "parse_cidr ''100.64.0.1/24'' = Ok (a, p)" using demo_cidr by blast
  have t: "eq_ignore_ascii_case ''TUN'' ''tun''" "trim ''eth0'' \<noteq> []" by code_simp+
  show ?thesis
    by (simp add: net_setup_def demo_config_def demo_host_def net_checks_def c t select_egress_def
        ensure_iptables_rules_def ensure_rule_def rule_exists_def masquerade_rule_def forward_out_rule_def
        forward_in_rule_def Let_def)
qed

theorem setup_drop_restores_witness:
  "(case net_setup demo_config demo_host of (h', r) \<Rightarrow>
      (case r of Inl _ \<Rightarrow> False
       | Inr rt \<Rightarrow> length (nh_rules h') = 4 \<and> nh_rules (runtime_drop rt h') = nh_rules demo_host))"
proof -
  obtain h' r where s: "net_setup demo_config demo_host = (h', r)" by fastforce
  have d: "\<forall>rule. nh_ipt_ok demo_host ''-D'' rule" by (simp add: demo_host_def)
  obtain rt where "r = Inr rt" "length (nh_rules h') = 4" using s demo_setup by (cases r) auto
  with setup_drop_restores [OF s d] s show ?thesis by simp
qed

end
