(* ===== verification/WgTransport.thy ===== *)
theory WgTransport
  imports Transport Packets
begin

text \<open>
  The WireGuard transport of \<^verbatim>\<open>bonded-core/src/transport.rs\<close>.  The tunnel engine (\<^verbatim>\<open>boringtun\<close>'s
  \<^verbatim>\<open>Tunn\<close>) is a parameter: a record of its operations on a state that includes its clock.  The
  UDP socket is a script of the datagrams that arrive and the list of those sent.
\<close>

subsection \<open>The tunnel engine\<close>

datatype IpAddr = V4 Ipv4Addr | V6 bytes

type_synonym SocketAddr = "IpAddr \<times> u16"

datatype TunnResult =
    TunnDone | TunnErr | WriteToNetwork bytes | WriteToTunnelV4 bytes | WriteToTunnelV6 bytes

text \<open>
  \<open>tn_new\<close> takes the own secret, the public key of the peer and the session index,
  \<open>tn_encapsulate\<close> a packet and the length of the output buffer; \<open>tn_established\<close> tells whether
  \<^verbatim>\<open>time_since_last_handshake\<close> is \<^verbatim>\<open>Some\<close>.
\<close>

record 't tunn_ops =
  tn_new :: "bytes \<Rightarrow> bytes \<Rightarrow> u32 \<Rightarrow> 't"
  tn_established :: "'t \<Rightarrow> bool"
  tn_initiation :: "'t \<Rightarrow> 't \<times> TunnResult"
  tn_decapsulate :: "'t \<Rightarrow> IpAddr option \<Rightarrow> bytes \<Rightarrow> 't \<times> TunnResult"
  tn_encapsulate :: "'t \<Rightarrow> bytes \<Rightarrow> nat \<Rightarrow> 't \<times> TunnResult"
  tn_update_timers :: "'t \<Rightarrow> 't \<times> TunnResult"

definition WG_MAX_DATAGRAM :: nat where "WG_MAX_DATAGRAM = 1500"
definition WG_HS_BUF :: nat where "WG_HS_BUF = 148"
definition WG_ENCAP_OVERHEAD :: nat where "WG_ENCAP_OVERHEAD = 60"

subsection \<open>Results of the engine\<close>

text \<open>Packets for the network and decoded frames that one datagram has produced so far.\<close>

type_synonym tunn_output = "bytes list \<times> SessionFrame list"

definition decode_inner :: "bytes \<Rightarrow> SessionFrame option" where
  "decode_inner ip_pkt =
     (case unwrap_from_ipv4 ip_pkt of
        Inl _ \<Rightarrow> None
      | Inr b \<Rightarrow> (case decode b of Inl _ \<Rightarrow> None | Inr frame \<Rightarrow> Some frame))"

definition push_frame :: "SessionFrame option \<Rightarrow> tunn_output \<Rightarrow> tunn_output" where
  "push_frame fo out = (case fo of None \<Rightarrow> out | Some frame \<Rightarrow> (fst out, snd out @ [frame]))"

fun client_tunn_result :: "TunnResult \<Rightarrow> tunn_output \<Rightarrow> tunn_output" where
  "client_tunn_result TunnDone out = out"
| "client_tunn_result (WriteToNetwork pkt) out = (fst out @ [pkt], snd out)"
| "client_tunn_result (WriteToTunnelV4 ip_pkt) out = push_frame (decode_inner ip_pkt) out"
| "client_tunn_result (WriteToTunnelV6 ip_pkt) out = push_frame (decode_inner ip_pkt) out"
| "client_tunn_result TunnErr out = out"

text \<open>
  The loop that calls \<^verbatim>\<open>decapsulate(None, &[])\<close> until it is done, on either end; it does not return
  when the engine never is.
\<close>

partial_function (option) drain_tunn ::
  "(TunnResult \<Rightarrow> tunn_output \<Rightarrow> tunn_output) \<Rightarrow> 't tunn_ops \<Rightarrow> 't \<Rightarrow> tunn_output \<Rightarrow> ('t \<times> tunn_output) option" where
  "drain_tunn handle ops t out =
     (case tn_decapsulate ops t None [] of
        (t', r) \<Rightarrow>
          let out' = handle r out
          in if r = TunnDone then Some (t', out') else drain_tunn handle ops t' out')"

declare drain_tunn.simps [code]

subsection \<open>The transport\<close>

datatype udp_event = UdpDatagram bytes | UdpError

record 't WireGuardTransport =
  wt_tunn :: 't
  wt_peer_addr :: SocketAddr
  wt_in :: "udp_event list"
  wt_out :: "bytes list"
  wt_send_ok :: "bytes \<Rightarrow> bool"
  wt_pending_recv :: "SessionFrame list"
  wt_buf_len :: nat

datatype WgError =
    WgSocket | WgHandshakeTimeout | WgInitiation | WgEncapsulate | WgUnexpected | WgProtect

definition wg_transport_new ::
  "'t tunn_ops \<Rightarrow> bytes \<Rightarrow> bytes \<Rightarrow> SocketAddr \<Rightarrow> u32 \<Rightarrow> bool \<Rightarrow> bool option \<Rightarrow> udp_event list \<Rightarrow> (bytes \<Rightarrow> bool)
   \<Rightarrow> (WgError, 't WireGuardTransport) res" where
  "wg_transport_new ops secret peer_key peer_addr session_index bound protect evs send_ok =
     (if \<not> bound then Err WgSocket
      else if protect = Some False then Err WgProtect
      else Ok \<lparr> wt_tunn = tn_new ops secret peer_key session_index, wt_peer_addr = peer_addr, wt_in = evs,
                wt_out = [], wt_send_ok = send_ok, wt_pending_recv = [],
                wt_buf_len = WG_MAX_DATAGRAM + WG_ENCAP_OVERHEAD \<rparr>)"

text \<open>\<^verbatim>\<open>socket.send(&pkt).await?\<close>, for one packet and for a list.\<close>

definition wt_send_pkt :: "bytes \<Rightarrow> 't WireGuardTransport \<Rightarrow> 't WireGuardTransport \<times> bool" where
  "wt_send_pkt pkt t = (if wt_send_ok t pkt then (t\<lparr> wt_out := wt_out t @ [pkt] \<rparr>, True) else (t, False))"

fun wt_send_pkts :: "bytes list \<Rightarrow> 't WireGuardTransport \<Rightarrow> 't WireGuardTransport \<times> bool" where
  "wt_send_pkts [] t = (t, True)"
| "wt_send_pkts (p # ps) t =
     (case wt_send_pkt p t of (t', False) \<Rightarrow> (t', False) | (t', True) \<Rightarrow> wt_send_pkts ps t')"

definition wg_process_datagram ::
  "'t tunn_ops \<Rightarrow> bytes \<Rightarrow> 't WireGuardTransport \<Rightarrow> ('t WireGuardTransport \<times> (WgError, unit) res) option" where
  "wg_process_datagram ops datagram t =
     (case tn_decapsulate ops (wt_tunn t) (Some (fst (wt_peer_addr t))) datagram of
        (tn, r) \<Rightarrow>
          (case drain_tunn client_tunn_result ops tn (client_tunn_result r ([], [])) of
             None \<Rightarrow> None
           | Some (tn', outbound, decoded_frames) \<Rightarrow>
               (case wt_send_pkts outbound (t\<lparr> wt_tunn := tn' \<rparr>) of
                  (t', False) \<Rightarrow> Some (t', Err WgSocket)
                | (t', True) \<Rightarrow>
                    Some (t'\<lparr> wt_pending_recv := wt_pending_recv t' @ decoded_frames \<rparr>, Ok ()))))"

text \<open>\<^verbatim>\<open>update_timers\<close> and the packet it may ask to send.\<close>

definition wt_timers :: "'t tunn_ops \<Rightarrow> 't WireGuardTransport \<Rightarrow> 't WireGuardTransport \<times> bool" where
  "wt_timers ops t =
     (case tn_update_timers ops (wt_tunn t) of
        (tn, WriteToNetwork pkt) \<Rightarrow> wt_send_pkt pkt (t\<lparr> wt_tunn := tn \<rparr>)
      | (tn, _) \<Rightarrow> (t\<lparr> wt_tunn := tn \<rparr>, True))"

text \<open>
  The waiting loop of \<^verbatim>\<open>establish_session\<close>; \<open>n\<close> is the number of reads that finish before the
  deadline of five seconds.
\<close>

fun establish_loop ::
  "'t tunn_ops \<Rightarrow> nat \<Rightarrow> 't WireGuardTransport \<Rightarrow> ('t WireGuardTransport \<times> (WgError, unit) res poll) option" where
  "establish_loop ops n t =
     (if tn_established ops (wt_tunn t) then Some (t, Ready (Ok ()))
      else case n of
             0 \<Rightarrow> Some (t, Ready (Err WgHandshakeTimeout))
           | Suc m \<Rightarrow>
               (case wt_in t of
                  [] \<Rightarrow> Some (t, Pending)
                | UdpError # evs \<Rightarrow> Some (t\<lparr> wt_in := evs \<rparr>, Ready (Err WgSocket))
                | UdpDatagram d # evs \<Rightarrow>
                    (case wg_process_datagram ops (take WG_MAX_DATAGRAM d) (t\<lparr> wt_in := evs \<rparr>) of
                       None \<Rightarrow> None
                     | Some (t', Inl e) \<Rightarrow> Some (t', Ready (Err e))
                     | Some (t', Inr _) \<Rightarrow> establish_loop ops m t')))"

declare establish_loop.simps [simp del]

definition establish_session ::
  "'t tunn_ops \<Rightarrow> nat \<Rightarrow> 't WireGuardTransport \<Rightarrow> ('t WireGuardTransport \<times> (WgError, unit) res poll) option" where
  "establish_session ops n t =
     (if tn_established ops (wt_tunn t) then Some (t, Ready (Ok ()))
      else case tn_initiation ops (wt_tunn t) of
             (tn, WriteToNetwork init) \<Rightarrow>
               (case wt_send_pkt init (t\<lparr> wt_tunn := tn \<rparr>) of
                  (t', False) \<Rightarrow> Some (t', Ready (Err WgSocket))
                | (t', True) \<Rightarrow> establish_loop ops n t')
           | (tn, TunnDone) \<Rightarrow> establish_loop ops n (t\<lparr> wt_tunn := tn \<rparr>)
           | (tn, _) \<Rightarrow> Some (t\<lparr> wt_tunn := tn \<rparr>, Ready (Err WgInitiation)))"

definition wt_grow_buf :: "bytes \<Rightarrow> nat \<Rightarrow> nat" where
  "wt_grow_buf ip_pkt len = max len (max (length ip_pkt + WG_ENCAP_OVERHEAD) WG_HS_BUF)"

definition wg_send ::
  "'t tunn_ops \<Rightarrow> nat \<Rightarrow> SessionFrame \<Rightarrow> 't WireGuardTransport
   \<Rightarrow> ('t WireGuardTransport \<times> (WgError, unit) res poll) option" where
  "wg_send ops n frame t =
     (case wt_timers ops t of
        (t, False) \<Rightarrow> Some (t, Ready (Err WgSocket))
      | (t, True) \<Rightarrow>
          let ip_pkt = wrap_in_ipv4 (encode frame);
              t = t\<lparr> wt_buf_len := wt_grow_buf ip_pkt (wt_buf_len t) \<rparr>
          in case tn_encapsulate ops (wt_tunn t) ip_pkt (wt_buf_len t) of
               (tn, WriteToNetwork pkt) \<Rightarrow>
                 (case wt_send_pkt pkt (t\<lparr> wt_tunn := tn \<rparr>) of
                    (t, ok) \<Rightarrow> Some (t, Ready (if ok then Ok () else Err WgSocket)))
             | (tn, r) \<Rightarrow>
                 if r = TunnErr \<or> r = TunnDone then
                   (case establish_session ops n (t\<lparr> wt_tunn := tn \<rparr>) of
                      None \<Rightarrow> None
                    | Some (t, Pending) \<Rightarrow> Some (t, Pending)
                    | Some (t, Ready (Inl e)) \<Rightarrow> Some (t, Ready (Err e))
                    | Some (t, Ready (Inr _)) \<Rightarrow>
                        (case tn_encapsulate ops (wt_tunn t) ip_pkt (wt_buf_len t) of
                           (tn, WriteToNetwork pkt) \<Rightarrow>
                             (case wt_send_pkt pkt (t\<lparr> wt_tunn := tn \<rparr>) of
                                (t, ok) \<Rightarrow> Some (t, Ready (if ok then Ok () else Err WgSocket)))
                         | (tn, _) \<Rightarrow> Some (t\<lparr> wt_tunn := tn \<rparr>, Ready (Err WgEncapsulate))))
                 else Some (t\<lparr> wt_tunn := tn \<rparr>, Ready (Err WgUnexpected)))"

text \<open>The loop of \<^verbatim>\<open>recv\<close>, by recursion on the datagrams that arrive.\<close>

fun wg_recv_loop ::
  "'t tunn_ops \<Rightarrow> udp_event list \<Rightarrow> 't WireGuardTransport
   \<Rightarrow> ('t WireGuardTransport \<times> (WgError, SessionFrame) res poll) option" where
  "wg_recv_loop ops [] t =
     (case wt_timers ops (t\<lparr> wt_in := [] \<rparr>) of
        (t, False) \<Rightarrow> Some (t, Ready (Err WgSocket))
      | (t, True) \<Rightarrow> Some (t, Pending))"
| "wg_recv_loop ops (ev # evs) t =
     (case wt_timers ops (t\<lparr> wt_in := ev # evs \<rparr>) of
        (t, False) \<Rightarrow> Some (t, Ready (Err WgSocket))
      | (t, True) \<Rightarrow>
          (case ev of
             UdpError \<Rightarrow> Some (t\<lparr> wt_in := evs \<rparr>, Ready (Err WgSocket))
           | UdpDatagram d \<Rightarrow>
               (case wg_process_datagram ops (take WG_MAX_DATAGRAM d) (t\<lparr> wt_in := evs \<rparr>) of
                  None \<Rightarrow> None
                | Some (t, Inl e) \<Rightarrow> Some (t, Ready (Err e))
                | Some (t, Inr _) \<Rightarrow>
                    (case wt_pending_recv t of
                       frame # rest \<Rightarrow> Some (t\<lparr> wt_pending_recv := rest \<rparr>, Ready (Ok frame))
                     | [] \<Rightarrow> wg_recv_loop ops evs t))))"

definition wg_recv ::
  "'t tunn_ops \<Rightarrow> 't WireGuardTransport \<Rightarrow> ('t WireGuardTransport \<times> (WgError, SessionFrame) res poll) option" where
  "wg_recv ops t =
     (case wt_pending_recv t of
        frame # rest \<Rightarrow> Some (t\<lparr> wt_pending_recv := rest \<rparr>, Ready (Ok frame))
      | [] \<Rightarrow> wg_recv_loop ops (wt_in t) t)"

subsection \<open>The drain loop returns\<close>

text \<open>
  An engine with finitely many results to flush: some measure decreases with every flush that
  is not done.
\<close>

definition flushes_end :: "'t tunn_ops \<Rightarrow> ('t \<Rightarrow> nat) \<Rightarrow> bool" where
  "flushes_end ops backlog \<longleftrightarrow>
     (\<forall>t. snd (tn_decapsulate ops t None []) \<noteq> TunnDone \<longrightarrow>
          backlog (fst (tn_decapsulate ops t None [])) < backlog t)"

lemma drain_returns:
  assumes "flushes_end ops backlog"
  shows "\<exists>t' out'. drain_tunn handle ops t out = Some (t', out')"
proof (induction "backlog t" arbitrary: t out rule: less_induct)
  case less
  obtain t1 r where d: "tn_decapsulate ops t None [] = (t1, r)" by fastforce
  show ?case
  proof (cases "r = TunnDone")
    case True
    then show ?thesis by (simp add: drain_tunn.simps [of handle ops t] d)
  next
    case False
    with assms d have "backlog t1 < backlog t" by (metis flushes_end_def fst_conv snd_conv)
    from less.hyps [OF this] False show ?thesis by (simp add: drain_tunn.simps [of handle ops t] d)
  qed
qed

lemma process_datagram_returns:
  assumes "flushes_end ops backlog"
  shows "\<exists>t' r. wg_process_datagram ops d t = Some (t', r)"
proof -
  obtain tn r where d: "tn_decapsulate ops (wt_tunn t) (Some (fst (wt_peer_addr t))) d = (tn, r)" by fastforce
  obtain tn' out where "drain_tunn client_tunn_result ops tn (client_tunn_result r ([], [])) = Some (tn', out)"
    using drain_returns [OF assms] by blast
  then show ?thesis by (auto simp: wg_process_datagram_def d split: prod.splits bool.splits)
qed

lemma establish_loop_returns:
  assumes "flushes_end ops backlog"
  shows "\<exists>t' r. establish_loop ops n t = Some (t', r)"
proof (induction n arbitrary: t)
  case (Suc n)
  have "\<exists>t' r. wg_process_datagram ops d u = Some (t', r)" for d u by (rule process_datagram_returns [OF assms])
  with Suc show ?case
    by (auto simp: establish_loop.simps [of ops "Suc n"] split: list.splits udp_event.splits option.splits sum.splits)
      (metis option.distinct(1))+
qed (simp add: establish_loop.simps)

lemma recv_loop_returns:
  assumes "flushes_end ops backlog"
  shows "\<exists>t' r. wg_recv_loop ops evs t = Some (t', r)"
proof (induction evs arbitrary: t)
  case Nil
  then show ?case by (simp split: prod.splits bool.splits)
next
  case (Cons ev evs)
  obtain t1 ok where m: "wt_timers ops (t\<lparr> wt_in := ev # evs \<rparr>) = (t1, ok)" by fastforce
  show ?case
  proof (cases ev)
    case UdpError
    with m show ?thesis by (cases ok) simp_all
  next
    case (UdpDatagram d)
    obtain t2 r where p: "wg_process_datagram ops (take WG_MAX_DATAGRAM d) (t1\<lparr> wt_in := evs \<rparr>) = Some (t2, r)"
      using process_datagram_returns [OF assms] by blast
    show ?thesis
      using Cons [of t2] m p UdpDatagram by (cases ok; cases r; cases "wt_pending_recv t2") simp_all
  qed
qed

lemma establish_returns:
  assumes "flushes_end ops backlog"
  shows "\<exists>t' r. establish_session ops n t = Some (t', r)"
  using establish_loop_returns [OF assms]
  by (simp add: establish_session_def split: prod.splits TunnResult.splits bool.splits)


subsection \<open>A tunnel engine\<close>

text \<open>
  A concrete engine for the examples: without encryption, but with a handshake, a queue of packets
  to flush and the rejection of datagrams it has seen.
\<close>

record plain_tunn_state =
  pt_up :: bool
  pt_seen :: "bytes list"
  pt_queue :: "bytes list"

definition plain_decapsulate :: "plain_tunn_state \<Rightarrow> bytes \<Rightarrow> plain_tunn_state \<times> TunnResult" where
  "plain_decapsulate t d =
     (case d of
        [] \<Rightarrow> (case pt_queue t of [] \<Rightarrow> (t, TunnDone) | q # qs \<Rightarrow> (t\<lparr> pt_queue := qs \<rparr>, WriteToNetwork q))
      | b # p \<Rightarrow>
          if d \<in> set (pt_seen t) then (t, TunnErr)
          else let t' = t\<lparr> pt_seen := d # pt_seen t \<rparr>
               in if b = 1 then (t'\<lparr> pt_up := True \<rparr>, WriteToNetwork [2])
                  else if b = 2 then (t'\<lparr> pt_up := True \<rparr>, TunnDone)
                  else if b = 4 then (t', WriteToTunnelV4 p)
                  else (t, TunnErr))"

definition plain_tunn :: "plain_tunn_state tunn_ops" where
  "plain_tunn =
     \<lparr> tn_new = (\<lambda>_ _ _. \<lparr> pt_up = False, pt_seen = [], pt_queue = [] \<rparr>),
       tn_established = pt_up,
       tn_initiation = (\<lambda>t. (t, WriteToNetwork [1])),
       tn_decapsulate = (\<lambda>t _ d. plain_decapsulate t d),
       tn_encapsulate = (\<lambda>t p _. if pt_up t then (t, WriteToNetwork (4 # p)) else (t, TunnErr)),
       tn_update_timers = (\<lambda>t. (t, TunnDone)) \<rparr>"

lemma plain_flushes: "flushes_end plain_tunn (\<lambda>t. length (pt_queue t))"
  by (simp add: flushes_end_def plain_tunn_def plain_decapsulate_def split: list.splits)

definition plain_client :: "udp_event list \<Rightarrow> plain_tunn_state WireGuardTransport" where
  "plain_client evs =
     \<lparr> wt_tunn = tn_new plain_tunn [] [] 1, wt_peer_addr = (V4 (Ipv4Addr 127 0 0 1), 51820), wt_in = evs,
       wt_out = [], wt_send_ok = (\<lambda>_. True), wt_pending_recv = [], wt_buf_len = 1560 \<rparr>"

definition plain_frame :: SessionFrame where
  "plain_frame = \<lparr> f_header = \<lparr> h_connection_id = 1, h_sequence = 0, h_flags = 0 \<rparr>, f_payload = [7, 8] \<rparr>"


end
