(* ===== verification/WgServer.thy ===== *)
theory WgServer
  imports WgTransport WgPeers Registry TunBridge Captures
begin

text \<open>
  The WireGuard listener of the server (\<^verbatim>\<open>wireguard.rs\<close>): the runtime of a peer, the datagram
  loop, the task that returns frames to a peer, and the clean-up.  It is the client of the peer
  registry, the session registry, the forwarder, the TUN bridge and the tunnel capture; the
  contexts of all peers are a list, so that a context that was dropped from the map but is still
  held by its task keeps its place.
\<close>

subsection \<open>Keys\<close>

datatype WgKeyError = WgKeyIo IoError | WgKeyLength nat

definition load_or_generate_wg_keypair ::
  "bytes \<Rightarrow> bytes disk_file \<Rightarrow> bytes disk_file \<times> (WgKeyError, bytes) res" where
  "load_or_generate_wg_keypair fresh f =
     (case df_content f of
        Content b \<Rightarrow> (f, if length b \<noteq> 32 then Err (WgKeyLength (length b)) else Ok b)
      | Missing \<Rightarrow>
          (case write_doc fresh f of
             Inl e \<Rightarrow> (f, Err (WgKeyIo e))
           | Inr f' \<Rightarrow> (f', Ok fresh))
      | Unreadable \<Rightarrow> (f, Err (WgKeyIo ReadFailed)))"

definition decode_peer_public_key :: "crypto \<Rightarrow> string \<Rightarrow> bytes option" where
  "decode_peer_public_key cr s =
     (case std_decode cr s of None \<Rightarrow> None | Some b \<Rightarrow> if length b \<noteq> 32 then None else Some b)"

subsection \<open>The runtime of a peer\<close>

record 't WireGuardPeerTransportState =
  ps_tunn :: 't
  ps_peer_addr :: "SocketAddr option"
  ps_pending_recv :: "SessionFrame list"
  ps_buf_len :: nat

record 't WireGuardServerPeer =
  sp_public_key :: string
  sp_session_id :: u64
  sp_state :: "'t WireGuardPeerTransportState"
  sp_forwarder :: "SmoltcpForwarder option"
  sp_tun_bridge :: bool

text \<open>Values from outside that one turn uses: clocks, sockets and the capture file.\<close>

record wg_env =
  we_unix :: u64
  we_udp_ok :: "SocketAddr \<Rightarrow> bytes \<Rightarrow> bool"
  we_now :: nat
  we_bound :: "string option"
  we_icmp :: icmp_io
  we_pcap :: "(u32 \<times> u32) \<times> write_result \<times> write_result"

type_synonym wg_wire = "(SocketAddr \<times> bytes) list"

definition runtime_new ::
  "'t tunn_ops \<Rightarrow> crypto \<Rightarrow> bytes \<Rightarrow> WireGuardPeer \<Rightarrow> u64 \<Rightarrow> 't WireGuardPeerTransportState option" where
  "runtime_new ops cr secret peer sid =
     (case decode_peer_public_key cr (wp_wg_public_key peer) of
        None \<Rightarrow> None
      | Some pk \<Rightarrow>
          Some \<lparr> ps_tunn = tn_new ops secret pk (ucast sid), ps_peer_addr = None, ps_pending_recv = [],
                 ps_buf_len = WG_MAX_DATAGRAM + WG_ENCAP_OVERHEAD \<rparr>)"

definition server_decode_inner :: "bytes \<Rightarrow> SessionFrame option" where
  "server_decode_inner ip_packet =
     (case server_unwrap_from_ipv4 ip_packet of
        Inl _ \<Rightarrow> None
      | Inr payload \<Rightarrow> (case decode payload of Inl _ \<Rightarrow> None | Inr frame \<Rightarrow> Some frame))"

fun handle_tunn_result :: "TunnResult \<Rightarrow> tunn_output \<Rightarrow> tunn_output \<times> bool" where
  "handle_tunn_result TunnDone out = (out, True)"
| "handle_tunn_result (WriteToNetwork packet) out = ((fst out @ [packet], snd out), True)"
| "handle_tunn_result (WriteToTunnelV4 ip_packet) out = (push_frame (server_decode_inner ip_packet) out, True)"
| "handle_tunn_result (WriteToTunnelV6 ip_packet) out = (push_frame (server_decode_inner ip_packet) out, True)"
| "handle_tunn_result TunnErr out = (out, False)"

definition process_datagram ::
  "'t tunn_ops \<Rightarrow> IpAddr \<Rightarrow> bytes \<Rightarrow> 't WireGuardPeerTransportState
   \<Rightarrow> ('t WireGuardPeerTransportState \<times> tunn_output option) option" where
  "process_datagram ops ip datagram st =
     (case tn_decapsulate ops (ps_tunn st) (Some ip) datagram of
        (tn, r) \<Rightarrow>
          let (out, accepted) = handle_tunn_result r ([], [])
          in if \<not> accepted then Some (st\<lparr> ps_tunn := tn \<rparr>, None)
             else case drain_tunn (\<lambda>r out. fst (handle_tunn_result r out)) ops tn out of
                    None \<Rightarrow> None
                  | Some (tn', outbound, decoded) \<Rightarrow>
                      Some (st\<lparr> ps_tunn := tn', ps_pending_recv := [] \<rparr>,
                            Some (outbound, decoded @ ps_pending_recv st)))"

fun udp_send_all :: "wg_env \<Rightarrow> SocketAddr \<Rightarrow> bytes list \<Rightarrow> wg_wire \<Rightarrow> wg_wire \<times> bool" where
  "udp_send_all env addr [] wire = (wire, True)"
| "udp_send_all env addr (p # ps) wire =
     (if we_udp_ok env addr p then udp_send_all env addr ps (wire @ [(addr, p)]) else (wire, False))"

definition try_accept_datagram ::
  "'t tunn_ops \<Rightarrow> wg_env \<Rightarrow> SocketAddr \<Rightarrow> bytes \<Rightarrow> 't WireGuardPeerTransportState \<Rightarrow> wg_wire
   \<Rightarrow> ('t WireGuardPeerTransportState \<times> wg_wire \<times> (unit, SessionFrame list option) res) option" where
  "try_accept_datagram ops env src datagram st wire =
     (if ps_peer_addr st \<noteq> None \<and> ps_peer_addr st \<noteq> Some src then Some (st, wire, Ok None)
      else case process_datagram ops (fst src) datagram st of
             None \<Rightarrow> None
           | Some (st', None) \<Rightarrow> Some (st', wire, Ok None)
           | Some (st', Some (outbound, decoded)) \<Rightarrow>
               let st' = (if ps_peer_addr st' = None then st'\<lparr> ps_peer_addr := Some src \<rparr> else st')
               in case udp_send_all env src outbound wire of
                    (wire', False) \<Rightarrow> Some (st', wire', Err ())
                  | (wire', True) \<Rightarrow> Some (st', wire', Ok (Some decoded)))"

definition send_frame ::
  "'t tunn_ops \<Rightarrow> wg_env \<Rightarrow> SessionFrame \<Rightarrow> 't WireGuardPeerTransportState \<Rightarrow> wg_wire
   \<Rightarrow> 't WireGuardPeerTransportState \<times> wg_wire \<times> bool" where
  "send_frame ops env frame st wire =
     (case ps_peer_addr st of
        None \<Rightarrow> (st, wire, False)
      | Some addr \<Rightarrow>
          (case tn_update_timers ops (ps_tunn st) of
             (tn, r) \<Rightarrow>
               let outbound = (case r of WriteToNetwork packet \<Rightarrow> [packet] | _ \<Rightarrow> []);
                   ip_packet = server_wrap_in_ipv4 (encode frame);
                   st = st\<lparr> ps_tunn := tn, ps_buf_len := wt_grow_buf ip_packet (ps_buf_len st) \<rparr>
               in case tn_encapsulate ops (ps_tunn st) ip_packet (ps_buf_len st) of
                    (tn, WriteToNetwork packet) \<Rightarrow>
                      (case udp_send_all env addr (outbound @ [packet]) wire of
                         (wire, ok) \<Rightarrow> (st\<lparr> ps_tunn := tn \<rparr>, wire, ok))
                  | (tn, _) \<Rightarrow> (st\<lparr> ps_tunn := tn \<rparr>, wire, False)))"

subsection \<open>The listener\<close>

record 't wg_server =
  sv_peers :: WireGuardPeerRegistry
  sv_sessions :: SessionRegistry
  sv_forwarders :: "(u64, nat) hmap"
  sv_tun_bridge :: "TunBridgeState option"
  sv_tunnel_pcap :: "cap_log option"
  sv_contexts :: "'t WireGuardServerPeer list"
  sv_runtimes :: "(string, nat) hmap"
  sv_peer_by_source :: "(SocketAddr, string) hmap"
  sv_wire :: wg_wire

definition wg_server_new :: "WireGuardPeerRegistry \<Rightarrow> SessionRegistry \<Rightarrow> TunBridgeState option \<Rightarrow> cap_log option \<Rightarrow> 't wg_server" where
  "wg_server_new peers sessions tun pcap =
     \<lparr> sv_peers = peers, sv_sessions = sessions, sv_forwarders = [], sv_tun_bridge = tun, sv_tunnel_pcap = pcap,
       sv_contexts = [], sv_runtimes = [], sv_peer_by_source = [], sv_wire = [] \<rparr>"

definition put_state :: "nat \<Rightarrow> 't WireGuardPeerTransportState \<Rightarrow> 't wg_server \<Rightarrow> 't wg_server" where
  "put_state i st sv = sv\<lparr> sv_contexts := (sv_contexts sv)[i := (sv_contexts sv ! i)\<lparr> sp_state := st \<rparr>] \<rparr>"

definition create_peer_runtime ::
  "'t tunn_ops \<Rightarrow> crypto \<Rightarrow> bytes \<Rightarrow> WireGuardPeer \<Rightarrow> 't wg_server \<Rightarrow> 't wg_server \<times> nat option" where
  "create_peer_runtime ops cr secret peer sv =
     (let key = wp_device_public_key peer;
          (sessions, sid) = register_client key (sv_sessions sv);
          sv = sv\<lparr> sv_sessions := sessions \<rparr>
      in case runtime_new ops cr secret peer sid of
           None \<Rightarrow> (sv, None)
         | Some st \<Rightarrow>
             let i = length (sv_contexts sv);
                 forwarder = (if sv_tun_bridge sv \<noteq> None then None else Some (forwarder_new sid));
                 sv = (if forwarder = None then sv
                       else sv\<lparr> sv_forwarders := hm_insert sid i (sv_forwarders sv) \<rparr>);
                 sv = sv\<lparr> sv_tun_bridge := map_option (register_session sid) (sv_tun_bridge sv) \<rparr>;
                 ctx = \<lparr> sp_public_key = key, sp_session_id = sid, sp_state = st, sp_forwarder = forwarder,
                         sp_tun_bridge = (sv_tun_bridge sv \<noteq> None) \<rparr>
             in (sv\<lparr> sv_contexts := sv_contexts sv @ [ctx], sv_runtimes := hm_insert key i (sv_runtimes sv) \<rparr>,
                 Some i))"

definition ensure_peer_runtime ::
  "'t tunn_ops \<Rightarrow> crypto \<Rightarrow> bytes \<Rightarrow> WireGuardPeer \<Rightarrow> 't wg_server \<Rightarrow> 't wg_server \<times> nat option" where
  "ensure_peer_runtime ops cr secret peer sv =
     (let key = wp_device_public_key peer
      in case map_of (sv_runtimes sv) key of
           Some i \<Rightarrow>
             if contains_client key (sv_sessions sv) then (sv, Some i)
             else create_peer_runtime ops cr secret peer (sv\<lparr> sv_runtimes := hm_remove key (sv_runtimes sv) \<rparr>)
         | None \<Rightarrow> create_peer_runtime ops cr secret peer sv)"

definition accept_at ::
  "'t tunn_ops \<Rightarrow> wg_env \<Rightarrow> SocketAddr \<Rightarrow> bytes \<Rightarrow> nat \<Rightarrow> 't wg_server
   \<Rightarrow> ('t wg_server \<times> (unit, SessionFrame list option) res) option" where
  "accept_at ops env src datagram i sv =
     (case try_accept_datagram ops env src datagram (sp_state (sv_contexts sv ! i)) (sv_wire sv) of
        None \<Rightarrow> None
      | Some (st, wire, r) \<Rightarrow> Some (put_state i st (sv\<lparr> sv_wire := wire \<rparr>), r))"

definition maybe_log_tunnel_packet :: "wg_env \<Rightarrow> bytes \<Rightarrow> 't wg_server \<Rightarrow> 't wg_server" where
  "maybe_log_tunnel_packet env payload sv =
     (if payload = [] then sv
      else case sv_tunnel_pcap sv of
             None \<Rightarrow> sv
           | Some l \<Rightarrow>
               (case we_pcap env of (ts, w1, w2) \<Rightarrow> sv\<lparr> sv_tunnel_pcap := Some (log_packet w1 w2 ts payload l) \<rparr>))"

definition send_at :: "'t tunn_ops \<Rightarrow> wg_env \<Rightarrow> SessionFrame \<Rightarrow> nat \<Rightarrow> 't wg_server \<Rightarrow> 't wg_server \<times> bool" where
  "send_at ops env frame i sv =
     (case send_frame ops env frame (sp_state (sv_contexts sv ! i)) (sv_wire sv) of
        (st, wire, ok) \<Rightarrow> (put_state i st (sv\<lparr> sv_wire := wire \<rparr>), ok))"

definition handle_decoded_frame ::
  "'t tunn_ops \<Rightarrow> wg_env \<Rightarrow> nat \<Rightarrow> SessionFrame \<Rightarrow> 't wg_server \<Rightarrow> 't wg_server exec" where
  "handle_decoded_frame ops env i frame sv =
     (let sv = maybe_log_tunnel_packet env (f_payload frame) sv; ctx = sv_contexts sv ! i
      in if h_flags (f_header frame) AND FLAG_PING \<noteq> 0 \<and> f_payload frame = [] then
           Return (fst (send_at ops env
             (frame\<lparr> f_header := \<lparr> h_connection_id = h_connection_id (f_header frame),
                                    h_sequence = h_sequence (f_header frame), h_flags = FLAG_PONG \<rparr> \<rparr>) i sv))
         else if sp_tun_bridge ctx then
           Return (sv\<lparr> sv_tun_bridge :=
                        map_option (\<lambda>b. fst (submit_client_frame (sp_session_id ctx) frame b)) (sv_tun_bridge sv) \<rparr>)
         else case sp_forwarder ctx of
                None \<Rightarrow> Return sv
              | Some fw \<Rightarrow>
                  (case ingest_packet (we_now env) (we_bound env) (we_icmp env) fw frame of
                     Panic \<Rightarrow> Panic
                   | Return fw' \<Rightarrow>
                       Return (sv\<lparr> sv_contexts := (sv_contexts sv)[i := ctx\<lparr> sp_forwarder := Some fw' \<rparr>] \<rparr>)))"

fun handle_decoded_frames ::
  "'t tunn_ops \<Rightarrow> wg_env \<Rightarrow> nat \<Rightarrow> SessionFrame list \<Rightarrow> 't wg_server \<Rightarrow> 't wg_server exec" where
  "handle_decoded_frames ops env i [] sv = Return sv"
| "handle_decoded_frames ops env i (f # fs) sv =
     (case handle_decoded_frame ops env i f sv of
        Panic \<Rightarrow> Panic
      | Return sv' \<Rightarrow> handle_decoded_frames ops env i fs sv')"

text \<open>The search for the peer of a datagram from an unknown source.\<close>

fun scan_peers ::
  "'t tunn_ops \<Rightarrow> crypto \<Rightarrow> bytes \<Rightarrow> wg_env \<Rightarrow> SocketAddr \<Rightarrow> bytes \<Rightarrow> WireGuardPeer list \<Rightarrow> 't wg_server
   \<Rightarrow> ('t wg_server \<times> (unit, nat option) res) option" where
  "scan_peers ops cr secret env src datagram [] sv = Some (sv, Ok None)"
| "scan_peers ops cr secret env src datagram (p # ps) sv =
     (case ensure_peer_runtime ops cr secret p sv of
        (sv, None) \<Rightarrow> Some (sv, Err ())
      | (sv, Some i) \<Rightarrow>
          (case accept_at ops env src datagram i sv of
             None \<Rightarrow> None
           | Some (sv, Inl _) \<Rightarrow> Some (sv, Err ())
           | Some (sv, Inr None) \<Rightarrow> scan_peers ops cr secret env src datagram ps sv
           | Some (sv, Inr (Some _)) \<Rightarrow>
               Some (sv\<lparr> sv_peer_by_source := hm_insert src (wp_device_public_key p) (sv_peer_by_source sv) \<rparr>,
                     Ok (Some i))))"

text \<open>
  One turn of \<^verbatim>\<open>run_wireguard_server\<close>: it goes on, ends with an error, or panics; \<open>None\<close> is a
  turn that does not return.
\<close>

datatype 's wg_turn = Serves 's | Stops 's | Panics

definition serve_frames ::
  "'t tunn_ops \<Rightarrow> wg_env \<Rightarrow> SocketAddr \<Rightarrow> bytes \<Rightarrow> nat \<Rightarrow> 't wg_server \<Rightarrow> 't wg_server wg_turn option" where
  "serve_frames ops env src datagram i sv =
     (case accept_at ops env src datagram i sv of
        None \<Rightarrow> None
      | Some (sv, Inl _) \<Rightarrow> Some (Stops sv)
      | Some (sv, Inr None) \<Rightarrow>
          Some (Serves (sv\<lparr> sv_peer_by_source := hm_remove src (sv_peer_by_source sv) \<rparr>))
      | Some (sv, Inr (Some frames)) \<Rightarrow>
          let sv = sv\<lparr> sv_peer_by_source :=
                         hm_insert src (sp_public_key (sv_contexts sv ! i)) (sv_peer_by_source sv) \<rparr>
          in Some (case handle_decoded_frames ops env i frames sv of
                     Panic \<Rightarrow> Panics | Return sv \<Rightarrow> Serves sv))"

definition matched_peer :: "SocketAddr \<Rightarrow> 't wg_server \<Rightarrow> nat option" where
  "matched_peer src sv = Option.bind (map_of (sv_peer_by_source sv) src) (map_of (sv_runtimes sv))"

definition wg_turn ::
  "'t tunn_ops \<Rightarrow> crypto \<Rightarrow> bytes \<Rightarrow> wg_env \<Rightarrow> SocketAddr \<Rightarrow> bytes \<Rightarrow> 't wg_server \<Rightarrow> 't wg_server wg_turn option" where
  "wg_turn ops cr secret env src received sv =
     (let datagram = take (WG_MAX_DATAGRAM + WG_ENCAP_OVERHEAD) received
      in case matched_peer src sv of
           Some i \<Rightarrow> serve_frames ops env src datagram i sv
         | None \<Rightarrow>
             (case all_peers (we_unix env) (sv_peers sv) of
                Panic \<Rightarrow> Some Panics
              | Return (peers, registered) \<Rightarrow>
                  (case scan_peers ops cr secret env src datagram registered (sv\<lparr> sv_peers := peers \<rparr>) of
                     None \<Rightarrow> None
                   | Some (sv, Inl _) \<Rightarrow> Some (Stops sv)
                   | Some (sv, Inr None) \<Rightarrow> Some (Serves sv)
                   | Some (sv, Inr (Some i)) \<Rightarrow> serve_frames ops env src datagram i sv)))"

subsection \<open>The task of a peer\<close>

definition cleanup_wireguard_peer :: "nat \<Rightarrow> 't wg_server \<Rightarrow> 't wg_server" where
  "cleanup_wireguard_peer i sv =
     (let ctx = sv_contexts sv ! i; sid = sp_session_id ctx;
          sv = (if sp_tun_bridge ctx
                then sv\<lparr> sv_tun_bridge := map_option (unregister_session sid) (sv_tun_bridge sv) \<rparr> else sv);
          sv = (case sp_forwarder ctx of
                  None \<Rightarrow> sv
                | Some fw \<Rightarrow>
                    sv\<lparr> sv_contexts := (sv_contexts sv)[i := ctx\<lparr> sp_forwarder := Some (clear_session fw) \<rparr>],
                        sv_forwarders := hm_remove sid (sv_forwarders sv) \<rparr>)
      in sv\<lparr> sv_sessions := unregister_client (sp_public_key ctx) (sv_sessions sv) \<rparr>)"

text \<open>
  What a receive of the task finds on its two channels.  The sender of the forward channel belongs
  to the forwarder; without one it is dropped when \<^verbatim>\<open>ensure_peer_runtime\<close> returns.  The sender of
  the TUN channel belongs to the route of the bridge.
\<close>

datatype task_input = ForwardFrame SessionFrame | ForwardClosed | TunFrame SessionFrame | TunClosed

fun task_can_receive :: "nat \<Rightarrow> 't wg_server \<Rightarrow> task_input \<Rightarrow> bool" where
  "task_can_receive i sv (ForwardFrame f) =
     (case sp_forwarder (sv_contexts sv ! i) of None \<Rightarrow> False | Some fw \<Rightarrow> f \<in> set (fw_outbound fw))"
| "task_can_receive i sv ForwardClosed = (sp_forwarder (sv_contexts sv ! i) = None)"
| "task_can_receive i sv (TunFrame f) =
     (sp_tun_bridge (sv_contexts sv ! i) \<and>
      (case sv_tun_bridge sv of None \<Rightarrow> False
       | Some b \<Rightarrow> (case map_of (tb_sessions b) (sp_session_id (sv_contexts sv ! i)) of
                     None \<Rightarrow> False | Some route \<Rightarrow> f \<in> set (rt_sent route))))"
| "task_can_receive i sv TunClosed =
     (sp_tun_bridge (sv_contexts sv ! i) \<and>
      (case sv_tun_bridge sv of None \<Rightarrow> True
       | Some b \<Rightarrow> map_of (tb_sessions b) (sp_session_id (sv_contexts sv ! i)) = None))"

text \<open>The reaction to a receive, and whether the task goes on.\<close>

definition return_frame :: "'t tunn_ops \<Rightarrow> wg_env \<Rightarrow> nat \<Rightarrow> SessionFrame \<Rightarrow> 't wg_server \<Rightarrow> 't wg_server \<times> bool" where
  "return_frame ops env i frame sv =
     (case send_at ops env frame i (maybe_log_tunnel_packet env (f_payload frame) sv) of
        (sv, True) \<Rightarrow> (sv, True)
      | (sv, False) \<Rightarrow> (cleanup_wireguard_peer i sv, False))"

fun peer_task_step :: "'t tunn_ops \<Rightarrow> wg_env \<Rightarrow> nat \<Rightarrow> task_input \<Rightarrow> 't wg_server \<Rightarrow> 't wg_server \<times> bool" where
  "peer_task_step ops env i (TunFrame f) sv = return_frame ops env i f sv"
| "peer_task_step ops env i (ForwardFrame f) sv = return_frame ops env i f sv"
| "peer_task_step ops env i TunClosed sv = (cleanup_wireguard_peer i sv, False)"
| "peer_task_step ops env i ForwardClosed sv = (cleanup_wireguard_peer i sv, False)"

subsection \<open>A frame on its way\<close>

text \<open>Two engine states of an established tunnel: what \<open>a\<close> encapsulates \<open>b\<close> takes out again.\<close>

definition carries :: "'t tunn_ops \<Rightarrow> 't \<Rightarrow> 't \<Rightarrow> IpAddr \<Rightarrow> bool" where
  "carries ops a b ip \<longleftrightarrow>
     (\<forall>p n. \<exists>a' d b1 b2. tn_encapsulate ops a p n = (a', WriteToNetwork d) \<and>
        tn_decapsulate ops b (Some ip) d = (b1, WriteToTunnelV4 p) \<and>
        tn_decapsulate ops b1 None [] = (b2, TunnDone))"

lemma carriesD:
  assumes "carries ops a b ip"
  obtains a' d b1 b2 where "tn_encapsulate ops a p n = (a', WriteToNetwork d)"
    "tn_decapsulate ops b (Some ip) d = (b1, WriteToTunnelV4 p)" "tn_decapsulate ops b1 None [] = (b2, TunnDone)"
  using assms unfolding carries_def by blast

lemma drain_done: "tn_decapsulate ops t None [] = (t', TunnDone) \<Longrightarrow> drain_tunn h ops t out = Some (t', h TunnDone out)"
  by (simp add: drain_tunn.simps [of h ops t])

lemma decode_inner_wrap [simp]:
  "decode_inner (wrap_in_ipv4 (encode f)) = Some f" "server_decode_inner (wrap_in_ipv4 (encode f)) = Some f"
  by (simp_all add: decode_inner_def server_decode_inner_def server_unwrap_eq)


subsection \<open>Datagrams from a new source\<close>

text \<open>
  The anti-replay rule of WireGuard: an engine that has accepted a datagram remembers it, through
  flushes as well, and rejects it from then on.
\<close>

definition rejects_replays :: "'t tunn_ops \<Rightarrow> ('t \<Rightarrow> bytes set) \<Rightarrow> bool" where
  "rejects_replays ops accepted \<longleftrightarrow>
     (\<forall>t ip d. d \<noteq> [] \<longrightarrow> snd (tn_decapsulate ops t (Some ip) d) \<noteq> TunnErr \<longrightarrow>
        d \<in> accepted (fst (tn_decapsulate ops t (Some ip) d))) \<and>
     (\<forall>t. accepted t \<subseteq> accepted (fst (tn_decapsulate ops t None []))) \<and>
     (\<forall>t ip d. d \<in> accepted t \<longrightarrow> snd (tn_decapsulate ops t (Some ip) d) = TunnErr)"

lemma drain_remembers:
  assumes "\<forall>t. accepted t \<subseteq> accepted (fst (tn_decapsulate ops t None []))"
    and "drain_tunn h ops t out = Some r"
  shows "accepted t \<subseteq> accepted (fst r)"
proof -
  have "ops = ops \<longrightarrow> accepted t \<subseteq> accepted (fst r)"
  proof (rule drain_tunn.raw_induct [where P = "\<lambda>_ o' t _ r. o' = ops \<longrightarrow> accepted t \<subseteq> accepted (fst r)", OF _ assms(2)])
    fix rec h' o' t out r
    assume IH: "\<And>h o' t out r. rec h o' t out = Some r \<Longrightarrow> o' = ops \<longrightarrow> accepted t \<subseteq> accepted (fst r)"
      and step: "(case tn_decapsulate o' t None [] of (t', x) \<Rightarrow>
        let out' = h' x out in if x = TunnDone then Some (t', out') else rec h' o' t' out') = Some r"
    obtain t1 x where d: "tn_decapsulate o' t None [] = (t1, x)" by fastforce
    show "o' = ops \<longrightarrow> accepted t \<subseteq> accepted (fst r)"
    proof
      assume "o' = ops"
      with assms(1) d have "accepted t \<subseteq> accepted t1" by (metis fst_conv)
      moreover have "accepted t1 \<subseteq> accepted (fst r)"
        using step d IH [of h' o' t1 "h' x out" r] \<open>o' = ops\<close> by (auto simp: Let_def split: if_splits)
      ultimately show "accepted t \<subseteq> accepted (fst r)" by blast
    qed
  qed
  then show ?thesis by simp
qed

lemma handle_rejects: "snd (handle_tunn_result r out) \<longleftrightarrow> r \<noteq> TunnErr"
  by (cases r) simp_all

text \<open>A runtime that has accepted a datagram rejects it the second time.\<close>

lemma accept_twice:
  assumes "rejects_replays ops accepted" "d \<noteq> []"
    and "try_accept_datagram ops env src d st wire = Some (st', wire', Ok (Some frames))"
  shows "\<exists>st''. try_accept_datagram ops env src d st' w = Some (st'', w, Ok None)"
proof -
  obtain tn r where dec: "tn_decapsulate ops (ps_tunn st) (Some (fst src)) d = (tn, r)" by fastforce
  from assms(3) obtain st1 out where p: "process_datagram ops (fst src) d st = Some (st1, Some out)"
    and st': "ps_tunn st' = ps_tunn st1" "ps_peer_addr st' = Some src"
    by (auto simp: try_accept_datagram_def Let_def split: if_splits option.splits prod.splits bool.splits)
      (auto simp: process_datagram_def Let_def split: if_splits option.splits prod.splits)
  obtain o' acc where h: "handle_tunn_result r ([], []) = (o', acc)" by fastforce
  with p dec have acc: "acc" by (auto simp: process_datagram_def split: if_splits)
  with h have "r \<noteq> TunnErr" using handle_rejects [of r "([], [])"] by simp
  with assms(1,2) dec have "d \<in> accepted tn" unfolding rejects_replays_def by (metis fst_conv snd_conv)
  moreover obtain tn' x where dr: "drain_tunn (\<lambda>r out. fst (handle_tunn_result r out)) ops tn o' = Some (tn', x)"
    and "ps_tunn st1 = tn'"
    using p dec h acc by (auto simp: process_datagram_def split: option.splits prod.splits)
  ultimately have "d \<in> accepted (ps_tunn st')"
    using drain_remembers [OF _ dr] assms(1) st' unfolding rejects_replays_def by auto
  then obtain tn2 where "tn_decapsulate ops (ps_tunn st') (Some (fst src)) d = (tn2, TunnErr)"
    using assms(1) unfolding rejects_replays_def by (metis prod.collapse)
  then show ?thesis using st'(2) by (simp add: try_accept_datagram_def process_datagram_def)
qed

text \<open>
  A listener that has delivered nothing: every forwarder is as it was created, and the queue of the
  bridge and the capture are those it started with.
\<close>

definition undelivered_from :: "'t wg_server \<Rightarrow> 't wg_server \<Rightarrow> bool" where
  "undelivered_from sv0 sv \<longleftrightarrow>
     (\<forall>ctx \<in> set (sv_contexts sv). \<forall>fw. sp_forwarder ctx = Some fw \<longrightarrow> fw = forwarder_new (sp_session_id ctx)) \<and>
     map_option tb_outbound (sv_tun_bridge sv) = map_option tb_outbound (sv_tun_bridge sv0) \<and>
     sv_tunnel_pcap sv = sv_tunnel_pcap sv0"

definition runtimes_ok :: "'t wg_server \<Rightarrow> bool" where
  "runtimes_ok sv \<longleftrightarrow> (\<forall>k i. map_of (sv_runtimes sv) k = Some i \<longrightarrow> i < length (sv_contexts sv))"

lemma create_keeps:
  assumes "create_peer_runtime ops cr secret peer sv = (sv', r)" "undelivered_from sv0 sv" "runtimes_ok sv"
  shows "undelivered_from sv0 sv' \<and> runtimes_ok sv' \<and> sv_peer_by_source sv' = sv_peer_by_source sv \<and>
    (\<forall>i. r = Some i \<longrightarrow> i < length (sv_contexts sv'))"
  using assms
  by (auto simp: create_peer_runtime_def undelivered_from_def runtimes_ok_def register_session_def Let_def option.map_comp
      comp_def map_laws less_Suc_eq split: prod.splits option.splits if_splits)

lemma ensure_keeps:
  assumes "ensure_peer_runtime ops cr secret peer sv = (sv', r)" "undelivered_from sv0 sv" "runtimes_ok sv"
  shows "undelivered_from sv0 sv' \<and> runtimes_ok sv' \<and> sv_peer_by_source sv' = sv_peer_by_source sv \<and>
    (\<forall>i. r = Some i \<longrightarrow> i < length (sv_contexts sv'))"
proof (cases "map_of (sv_runtimes sv) (wp_device_public_key peer)")
  case None
  with assms show ?thesis using create_keeps [of ops cr secret peer sv] by (simp add: ensure_peer_runtime_def)
next
  case (Some i)
  let ?sv = "sv\<lparr> sv_runtimes := hm_remove (wp_device_public_key peer) (sv_runtimes sv) \<rparr>"
  have "undelivered_from sv0 ?sv" "runtimes_ok ?sv"
    using assms(2,3) by (auto simp: undelivered_from_def runtimes_ok_def map_laws split: if_splits)
  note k = create_keeps [OF _ this]
  show ?thesis
  proof (cases "contains_client (wp_device_public_key peer) (sv_sessions sv)")
    case True
    with assms Some show ?thesis by (auto simp: ensure_peer_runtime_def runtimes_ok_def)
  next
    case False
    with assms(1) Some k show ?thesis by (simp add: ensure_peer_runtime_def)
  qed
qed

lemma accept_keeps:
  assumes "accept_at ops env src d i sv = Some (sv', r)" "undelivered_from sv0 sv" "runtimes_ok sv" "i < length (sv_contexts sv)"
  shows "undelivered_from sv0 sv' \<and> runtimes_ok sv' \<and> sv_peer_by_source sv' = sv_peer_by_source sv \<and>
    length (sv_contexts sv') = length (sv_contexts sv)"
proof -
  obtain st wire where sv': "sv' = put_state i st (sv\<lparr> sv_wire := wire \<rparr>)"
    using assms(1) by (auto simp: accept_at_def split: option.splits)
  have "\<forall>fw. sp_forwarder (sv_contexts sv ! i) = Some fw \<longrightarrow> fw = forwarder_new (sp_session_id (sv_contexts sv ! i))"
    using assms(2,4) by (simp add: undelivered_from_def)
  then show ?thesis using assms(2,3) unfolding sv'
    by (auto simp: put_state_def undelivered_from_def runtimes_ok_def dest!: set_update_subset_insert [THEN subsetD])
qed

lemma accept_again:
  assumes "rejects_replays ops accepted" "d \<noteq> []" "i < length (sv_contexts sv)"
    and "accept_at ops env src d i sv = Some (sv', Ok (Some frames))"
  shows "\<exists>st. try_accept_datagram ops env src d (sp_state (sv_contexts sv' ! i)) w = Some (st, w, Ok None)"
  using assms accept_twice [OF assms(1,2)]
  by (fastforce simp: accept_at_def put_state_def split: option.splits)

lemma scan_keeps:
  assumes "rejects_replays ops accepted" "d \<noteq> []"
    and "scan_peers ops cr secret env src d ps sv = Some (sv', r)" "undelivered_from sv0 sv" "runtimes_ok sv"
  shows "undelivered_from sv0 sv' \<and> runtimes_ok sv' \<and>
    (r = Ok None \<longrightarrow> sv_peer_by_source sv' = sv_peer_by_source sv) \<and>
    (\<forall>i. r = Ok (Some i) \<longrightarrow> i < length (sv_contexts sv') \<and>
       (\<exists>k. sv_peer_by_source sv' = hm_insert src k (sv_peer_by_source sv)) \<and>
       (\<forall>w. \<exists>st. try_accept_datagram ops env src d (sp_state (sv_contexts sv' ! i)) w = Some (st, w, Ok None)))"
  using assms(3-)
proof (induction ps arbitrary: sv)
  case Nil
  then show ?case by auto
next
  case (Cons p ps)
  obtain sv1 x where e: "ensure_peer_runtime ops cr secret p sv = (sv1, x)" by fastforce
  note k1 = ensure_keeps [OF e Cons.prems(2,3)]
  show ?case
  proof (cases x)
    case None
    with Cons.prems(1) e k1 show ?thesis by auto
  next
    case (Some i)
    with k1 have i: "i < length (sv_contexts sv1)" by simp
    from Cons.prems(1) e Some obtain sv2 y where a: "accept_at ops env src d i sv1 = Some (sv2, y)"
      by (auto split: option.splits)
    have k2: "undelivered_from sv0 sv2" "runtimes_ok sv2" "sv_peer_by_source sv2 = sv_peer_by_source sv"
      "i < length (sv_contexts sv2)"
      using accept_keeps [OF a] k1 i by auto
    consider (err) z where "y = Inl z" | (miss) "y = Inr None" | (hit) frames where "y = Inr (Some frames)"
      by (metis option.exhaust sum.exhaust)
    then show ?thesis
    proof cases
      case err
      with Cons.prems(1) e Some a k2 show ?thesis by auto
    next
      case miss
      with Cons.prems(1) e Some a have "scan_peers ops cr secret env src d ps sv2 = Some (sv', r)" by simp
      from Cons.IH [OF this k2(1,2)] k2(3) show ?thesis by simp
    next
      case hit
      with Cons.prems(1) e Some a
      have r: "r = Ok (Some i)"
        "sv' = sv2\<lparr> sv_peer_by_source := hm_insert src (wp_device_public_key p) (sv_peer_by_source sv2) \<rparr>" by auto
      have "\<exists>st. try_accept_datagram ops env src d (sp_state (sv_contexts sv2 ! i)) w = Some (st, w, Ok None)" for w
        using accept_again [OF assms(1,2) i] a hit by blast
      with r k2 show ?thesis by (auto simp: undelivered_from_def runtimes_ok_def)
    qed
  qed
qed

lemma turn_keeps:
  assumes "rejects_replays ops accepted" "d \<noteq> []" "wg_turn ops cr secret env src d sv = Some (Serves sv')"
    and "undelivered_from sv0 sv" "runtimes_ok sv" "sv_peer_by_source sv = []"
  shows "undelivered_from sv0 sv' \<and> runtimes_ok sv' \<and> sv_peer_by_source sv' = []"
proof -
  let ?d = "take (WG_MAX_DATAGRAM + WG_ENCAP_OVERHEAD) d"
  have d: "?d \<noteq> []" using assms(2) by (simp add: WG_MAX_DATAGRAM_def)
  have "matched_peer src sv = None" using assms(6) by (simp add: matched_peer_def)
  with assms(3) obtain peers registered sv1 y
    where scan: "scan_peers ops cr secret env src ?d registered (sv\<lparr> sv_peers := peers \<rparr>) = Some (sv1, y)"
      and rest: "(case y of Inl _ \<Rightarrow> Some (Stops sv1) | Inr None \<Rightarrow> Some (Serves sv1)
        | Inr (Some i) \<Rightarrow> serve_frames ops env src ?d i sv1) = Some (Serves sv')"
    by (auto simp: wg_turn_def Let_def split: exec.splits option.splits sum.splits)
  have "undelivered_from sv0 (sv\<lparr> sv_peers := peers \<rparr>)" "runtimes_ok (sv\<lparr> sv_peers := peers \<rparr>)"
    using assms(4,5) by (simp_all add: undelivered_from_def runtimes_ok_def)
  note k = scan_keeps [OF assms(1) d scan this]
  show ?thesis
  proof (cases "\<exists>i. y = Inr (Some i)")
    case False
    with rest k assms(6) show ?thesis by (auto split: sum.splits option.splits)
  next
    case True
    then obtain i where y: "y = Ok (Some i)" by blast
    with k assms(6) obtain key st where i: "i < length (sv_contexts sv1)" "sv_peer_by_source sv1 = [(src, key)]"
      and "try_accept_datagram ops env src ?d (sp_state (sv_contexts sv1 ! i)) (sv_wire sv1) = Some (st, sv_wire sv1, Ok None)"
      by fastforce
    then have a: "accept_at ops env src ?d i sv1 = Some (put_state i st (sv1\<lparr> sv_wire := sv_wire sv1 \<rparr>), Ok None)"
      (is "_ = Some (?sv2, _)") by (simp add: accept_at_def)
    from accept_keeps [OF a] k i(1)
    have k2: "undelivered_from sv0 ?sv2" "runtimes_ok ?sv2" "sv_peer_by_source ?sv2 = [(src, key)]" using i(2) by auto
    from rest y a have "sv' = ?sv2\<lparr> sv_peer_by_source := hm_remove src (sv_peer_by_source ?sv2) \<rparr>"
      by (simp add: serve_frames_def)
    with k2 show ?thesis by (auto simp: undelivered_from_def runtimes_ok_def)
  qed
qed

fun wg_run ::
  "'t tunn_ops \<Rightarrow> crypto \<Rightarrow> bytes \<Rightarrow> (wg_env \<times> SocketAddr \<times> bytes) list \<Rightarrow> 't wg_server \<Rightarrow> 't wg_server wg_turn option" where
  "wg_run ops cr secret [] sv = Some (Serves sv)"
| "wg_run ops cr secret ((env, src, d) # ds) sv =
     (case wg_turn ops cr secret env src d sv of
        Some (Serves sv') \<Rightarrow> wg_run ops cr secret ds sv'
      | r \<Rightarrow> r)"

lemma run_keeps:
  assumes "rejects_replays ops accepted" "\<forall>(_, _, d) \<in> set ds. d \<noteq> []"
    and "wg_run ops cr secret ds sv = Some (Serves sv')"
    and "undelivered_from sv0 sv" "runtimes_ok sv" "sv_peer_by_source sv = []"
  shows "undelivered_from sv0 sv' \<and> runtimes_ok sv' \<and> sv_peer_by_source sv' = []"
  using assms(2-)
proof (induction ds arbitrary: sv)
  case (Cons x ds)
  obtain env src d where x: "x = (env, src, d)" by (cases x)
  with Cons.prems obtain sv1 where t: "wg_turn ops cr secret env src d sv = Some (Serves sv1)"
    "wg_run ops cr secret ds sv1 = Some (Serves sv')" by (auto split: option.splits wg_turn.splits)
  have "d \<noteq> []" using Cons.prems(1) x by simp
  from turn_keeps [OF assms(1) this t(1) Cons.prems(3-)] Cons.IH [OF _ t(2)] Cons.prems(1) show ?case by simp
qed simp


subsection \<open>Peers and their addresses\<close>

lemma accept_pins:
  "try_accept_datagram ops env src d st wire = Some (st', wire', Ok (Some frames)) \<Longrightarrow> ps_peer_addr st' = Some src"
  by (auto simp: try_accept_datagram_def process_datagram_def Let_def split: if_splits option.splits prod.splits bool.splits)

text \<open>
  C35.  The address of a peer is fixed by the first datagram its engine does not reject, and from
  then on datagrams of any other address are refused without being looked at.  An empty datagram,
  which the engine answers with \<^verbatim>\<open>Done\<close> for anyone, is enough: it binds the runtime of a peer to
  its sender.
\<close>

theorem wg_empty_datagram_takes_peer:
  assumes "ps_peer_addr st = None" "tn_decapsulate ops (ps_tunn st) (Some (fst attacker)) [] = (t1, TunnDone)"
    and "tn_decapsulate ops t1 None [] = (t2, TunnDone)"
  shows "\<exists>st'. try_accept_datagram ops env attacker [] st wire = Some (st', wire, Ok (Some (ps_pending_recv st))) \<and>
    (\<forall>src d w. src \<noteq> attacker \<longrightarrow> try_accept_datagram ops env src d st' w = Some (st', w, Ok None))"
proof -
  have "try_accept_datagram ops env attacker [] st wire =
      Some (st\<lparr> ps_tunn := t2, ps_pending_recv := [], ps_peer_addr := Some attacker \<rparr>, wire, Ok (Some (ps_pending_recv st)))"
    using assms by (simp add: try_accept_datagram_def process_datagram_def drain_done)
  then show ?thesis by (simp add: try_accept_datagram_def)
qed

text \<open>
  C36.  A registered peer whose key does not decode ends the listener: when the search for the peer
  of a datagram reaches it, \<^verbatim>\<open>ensure_peer_runtime\<close> fails, and the error leaves the loop.
\<close>

theorem wg_bad_key_ends_listener:
  assumes "matched_peer src sv = None" "all_peers (we_unix env) (sv_peers sv) = Return (peers, ps @ q # qs)"
    and "scan_peers ops cr secret env src (take 1560 d) ps (sv\<lparr> sv_peers := peers \<rparr>) = Some (sv1, Ok None)"
    and "decode_peer_public_key cr (wp_wg_public_key q) = None" "map_of (sv_runtimes sv1) (wp_device_public_key q) = None"
  shows "\<exists>sv'. wg_turn ops cr secret env src d sv = Some (Stops sv')"
proof -
  have "scan_peers ops cr secret env src (take 1560 d) (ps @ rest) sv2 =
      scan_peers ops cr secret env src (take 1560 d) rest sv1"
    if "scan_peers ops cr secret env src (take 1560 d) ps sv2 = Some (sv1, Ok None)" for rest sv2
    using that by (induction ps arbitrary: sv2) (auto split: prod.splits option.splits sum.splits)
  from this [OF assms(3)] assms(4,5)
  have "\<exists>sv'. scan_peers ops cr secret env src (take 1560 d) (ps @ q # qs) (sv\<lparr> sv_peers := peers \<rparr>) = Some (sv', Err ())"
    by (simp add: ensure_peer_runtime_def create_peer_runtime_def runtime_new_def split: prod.splits)
  then show ?thesis
    using assms(1,2) by (auto simp: wg_turn_def WG_MAX_DATAGRAM_def WG_ENCAP_OVERHEAD_def)
qed

text \<open>
  C34.  With a TUN bridge the task of a new peer ends at once: no forwarder holds the sender of its
  forward channel, so that its first receive finds the channel closed, while the TUN channel is
  open and empty.  The clean-up removes the session from the registry and from the bridge, and the
  next datagram of the peer starts again with a new engine.  Without a bridge this cannot happen.
\<close>

theorem wg_tun_peer_task_ends:
  assumes "create_peer_runtime ops cr secret peer sv = (sv1, Some i)"
  shows "(sv_tun_bridge sv = None \<longrightarrow> \<not> task_can_receive i sv1 ForwardClosed) \<and>
    (sv_tun_bridge sv \<noteq> None \<longrightarrow>
       task_can_receive i sv1 ForwardClosed \<and> \<not> task_can_receive i sv1 TunClosed \<and>
       (\<forall>f. \<not> task_can_receive i sv1 (TunFrame f)) \<and>
       (case peer_task_step ops env i ForwardClosed sv1 of (sv2, alive) \<Rightarrow>
          \<not> alive \<and> \<not> contains_client (wp_device_public_key peer) (sv_sessions sv2) \<and>
          (\<exists>b. sv_tun_bridge sv2 = Some b \<and> map_of (tb_sessions b) (sp_session_id (sv_contexts sv1 ! i)) = None) \<and>
          (\<exists>sv3 j sid. ensure_peer_runtime ops cr secret peer sv2 = (sv3, Some j) \<and> j \<noteq> i \<and>
             (\<exists>pk. ps_tunn (sp_state (sv_contexts sv3 ! j)) = tn_new ops secret pk sid))))"
proof -
  obtain sess sid where reg: "register_client (wp_device_public_key peer) (sv_sessions sv) = (sess, sid)" by fastforce
  with assms obtain pk where pk: "decode_peer_public_key cr (wp_wg_public_key peer) = Some pk"
    by (auto simp: create_peer_runtime_def runtime_new_def split: option.splits)
  show ?thesis
  proof (cases "sv_tun_bridge sv")
    case None
    with assms reg pk show ?thesis by (auto simp: create_peer_runtime_def runtime_new_def Let_def)
  next
    case (Some b)
    let ?k = "wp_device_public_key peer"
    let ?b = "register_session sid b"
    let ?ctx = "\<lparr> sp_public_key = ?k, sp_session_id = sid,
      sp_state = \<lparr> ps_tunn = tn_new ops secret pk (ucast sid), ps_peer_addr = None, ps_pending_recv = [], ps_buf_len = 1560 \<rparr>,
      sp_forwarder = None, sp_tun_bridge = True \<rparr>"
    have i: "i = length (sv_contexts sv)" and sv1: "sv1 = sv\<lparr> sv_sessions := sess, sv_tun_bridge := Some ?b,
        sv_contexts := sv_contexts sv @ [?ctx], sv_runtimes := hm_insert ?k i (sv_runtimes sv) \<rparr>"
      using assms reg pk Some
      by (auto simp: create_peer_runtime_def runtime_new_def Let_def WG_MAX_DATAGRAM_def WG_ENCAP_OVERHEAD_def)
    have ctx: "sv_contexts sv1 ! i = ?ctx" and tb: "sv_tun_bridge sv1 = Some ?b" by (simp_all add: sv1 i)
    let ?sv2 = "sv1\<lparr> sv_tun_bridge := Some (unregister_session sid ?b), sv_sessions := unregister_client ?k sess \<rparr>"
    have step: "peer_task_step ops env i ForwardClosed sv1 = (?sv2, False)"
      by (simp add: cleanup_wireguard_peer_def ctx tb Let_def) (simp add: sv1)
    have gone: "\<not> contains_client ?k (unregister_client ?k sess)"
      by (simp add: contains_client_def unregister_client_def map_laws)
    obtain sess' sid' where reg': "register_client ?k (unregister_client ?k sess) = (sess', sid')" by fastforce
    obtain sv3 where "ensure_peer_runtime ops cr secret peer ?sv2 = (sv3, Some (Suc i))"
        "ps_tunn (sp_state (sv_contexts sv3 ! Suc i)) = tn_new ops secret pk (ucast sid')"
      using gone reg' pk
      by (simp add: ensure_peer_runtime_def create_peer_runtime_def runtime_new_def Let_def sv1 i map_laws nth_append)
    then have again: "\<exists>sv3 j sid. ensure_peer_runtime ops cr secret peer ?sv2 = (sv3, Some j) \<and> j \<noteq> i \<and>
        (\<exists>pk. ps_tunn (sp_state (sv_contexts sv3 ! j)) = tn_new ops secret pk sid)" by (metis n_not_Suc_n)
    have bridge: "map_of (tb_sessions ?b) sid = Some \<lparr> rt_sent = [], rt_open = True, rt_connection_id = 1,
          rt_next_server_sequence = 0 \<rparr>" "map_of (tb_sessions (unregister_session sid ?b)) sid = None"
      by (simp_all add: register_session_def unregister_session_def forget_session_def map_laws)
    show ?thesis unfolding step prod.case using Some again by (simp add: ctx tb gone bridge)
  qed
qed

subsection \<open>Examples\<close>

definition plain_src :: SocketAddr where "plain_src = (V4 (Ipv4Addr 192 0 2 7), 40000)"

definition plain_env :: wg_env where
  "plain_env = \<lparr> we_unix = 1000, we_udp_ok = (\<lambda>_ _. True), we_now = 0, we_bound = None, we_icmp = IcmpNoReply,
                 we_pcap = ((0, 0), Written, Written) \<rparr>"

definition plain_peer :: "string \<Rightarrow> WireGuardPeer" where
  "plain_peer wg_key = \<lparr> wp_device_public_key = ''device'', wp_wg_public_key = wg_key,
                         wp_peer_ip = Ipv4Addr 100 64 1 1, wp_lease_expires_at = 0 \<rparr>"

definition plain_peers :: "string \<Rightarrow> WireGuardPeerRegistry" where
  "plain_peers wg_key = (new_with_lease 300)\<lparr> wr_peers := [(''device'', plain_peer wg_key)] \<rparr>"

definition plain_key :: string where "plain_key = replicate 32 (CHR ''k'')"

definition plain_server :: "string \<Rightarrow> TunBridgeState option \<Rightarrow> plain_tunn_state wg_server" where
  "plain_server wg_key tun = wg_server_new (plain_peers wg_key) registry_new tun None"

definition plain_state :: "SocketAddr option \<Rightarrow> plain_tunn_state WireGuardPeerTransportState" where
  "plain_state addr = \<lparr> ps_tunn = \<lparr> pt_up = True, pt_seen = [], pt_queue = [] \<rparr>, ps_peer_addr = addr,
                        ps_pending_recv = [], ps_buf_len = 1560 \<rparr>"

lemma plain_carries:
  assumes "pt_up a" "pt_queue b = []" "pt_seen b = []"
  shows "carries plain_tunn a b ip"
  using assms by (simp add: carries_def plain_tunn_def plain_decapsulate_def)


lemma plain_rejects: "rejects_replays plain_tunn (\<lambda>t. set (pt_seen t) - {[]})"
  by (auto simp: rejects_replays_def plain_tunn_def plain_decapsulate_def Let_def split: list.splits if_splits)

definition plain_run :: "(wg_env \<times> SocketAddr \<times> bytes) list" where
  "plain_run = [(plain_env, plain_src, [1]),
     (plain_env, plain_src, [4, 0x45] @ replicate 19 0 @ [0, 0, 0, 1, 0, 0, 0, 0, 0, 0, 0, 0, 0, 0, 0, 0, 7, 8])]"

lemma plain_run_serves:
  "case wg_run plain_tunn plain_crypto [] plain_run (plain_server plain_key None) of
     Some (Serves sv) \<Rightarrow> length (sv_contexts sv) = 1 | _ \<Rightarrow> False"
  by code_simp


theorem wg_empty_datagram_takes_peer_witness:
  "\<exists>st'. try_accept_datagram plain_tunn plain_env (V4 (Ipv4Addr 203 0 113 9), 1) [] (plain_state None) [] = Some (st', [], Ok (Some [])) \<and>
     try_accept_datagram plain_tunn plain_env plain_src [1] st' [] = Some (st', [], Ok None)"
proof -
  have "ps_peer_addr (plain_state None) = None"
    "tn_decapsulate plain_tunn (ps_tunn (plain_state None)) (Some (fst (V4 (Ipv4Addr 203 0 113 9), 1 :: u16))) [] =
       (ps_tunn (plain_state None), TunnDone)"
    "tn_decapsulate plain_tunn (ps_tunn (plain_state None)) None [] = (ps_tunn (plain_state None), TunnDone)"
    by (simp_all add: plain_state_def plain_tunn_def plain_decapsulate_def)
  from wg_empty_datagram_takes_peer [OF this, of plain_env "[]"] show ?thesis
    by (auto simp: plain_state_def plain_src_def)
qed

theorem wg_bad_key_ends_listener_witness:
  "\<exists>sv'. wg_turn plain_tunn plain_crypto [] plain_env plain_src [9] (plain_server ''bad'' None) = Some (Stops sv')"
proof (rule wg_bad_key_ends_listener)
  show "matched_peer plain_src (plain_server ''bad'' None) = None"
    by (simp add: matched_peer_def plain_server_def wg_server_new_def)
  show "all_peers (we_unix plain_env) (sv_peers (plain_server ''bad'' None)) = Return (plain_peers ''bad'', [] @ plain_peer ''bad'' # [])"
    by (simp add: plain_server_def wg_server_new_def all_peers_def prune_expired_locked_def live_peers_def expect_def
        plain_peers_def plain_peer_def)
  show "scan_peers plain_tunn plain_crypto [] plain_env plain_src (take 1560 [9]) [] ((plain_server ''bad'' None)\<lparr> sv_peers := plain_peers ''bad'' \<rparr>) =
      Some ((plain_server ''bad'' None)\<lparr> sv_peers := plain_peers ''bad'' \<rparr>, Ok None)" by simp
  show "decode_peer_public_key plain_crypto (wp_wg_public_key (plain_peer ''bad'')) = None"
    by (simp add: decode_peer_public_key_def plain_crypto_def plain_peer_def)
  show "map_of (sv_runtimes ((plain_server ''bad'' None)\<lparr> sv_peers := plain_peers ''bad'' \<rparr>)) (wp_device_public_key (plain_peer ''bad'')) = None"
    by (simp add: plain_server_def wg_server_new_def)
qed

theorem wg_tun_peer_task_ends_witness:
  "case create_peer_runtime plain_tunn plain_crypto [] (plain_peer plain_key) (plain_server plain_key (Some tun_bridge_new)) of
     (sv1, Some i) \<Rightarrow> task_can_receive i sv1 ForwardClosed \<and>
       \<not> contains_client ''device'' (sv_sessions (fst (peer_task_step plain_tunn plain_env i ForwardClosed sv1)))
   | _ \<Rightarrow> False"
proof -
  have "snd (create_peer_runtime plain_tunn plain_crypto [] (plain_peer plain_key) (plain_server plain_key (Some tun_bridge_new))) = Some 0"
    by code_simp
  then obtain sv1 where c: "create_peer_runtime plain_tunn plain_crypto [] (plain_peer plain_key)
    (plain_server plain_key (Some tun_bridge_new)) = (sv1, Some 0)" by (metis prod.collapse)
  from wg_tun_peer_task_ends [OF c, of plain_env] c show ?thesis
    by (auto simp: plain_server_def wg_server_new_def plain_peer_def split: prod.splits)
qed

end
