(* ===== verification/PeerShare.thy ===== *)
theory PeerShare
  imports Auth Transport
begin

text \<open>
  Sharing a connection with a peer: the messages of \<^verbatim>\<open>bonded-core/src/peer_share.rs\<close>, their JSON
  and TXT-record forms, and the binding of a session to the client it is relayed for
  (\<^verbatim>\<open>bonded-server/src/peer_relay.rs\<close>).
\<close>

subsection \<open>Messages\<close>

record PeerShareIntroductionRequest =
  rq_consumer_device_public_key :: string
  rq_provider_device_public_key :: string
  rq_provider_instance_nonce :: string
  rq_provider_endpoint :: string
  rq_listener_transport :: string
  rq_listener_cert_fingerprint :: string
  rq_consumer_signature :: string

record PeerShareIntroductionClaims =
  cl_consumer_device_public_key :: string
  cl_provider_device_public_key :: string
  cl_provider_instance_nonce :: string
  cl_provider_endpoint :: string
  cl_listener_transport :: string
  cl_listener_cert_fingerprint :: string
  cl_expires_at :: u64

record SignedPeerShareIntroduction =
  si_introduction :: PeerShareIntroductionClaims
  si_server_signature :: string

record PeerRelayRegistration =
  pr_introduction :: SignedPeerShareIntroduction

record PeerShareAdvertisement =
  ad_version :: u16
  ad_device_key :: string
  ad_server_public_key :: string
  ad_instance_nonce :: string
  ad_endpoint :: string
  ad_listener_cert_fingerprint :: string
  ad_capabilities :: "string list"

subsection \<open>JSON\<close>

definition signed_payload :: "json_codec \<Rightarrow> PeerShareIntroductionRequest \<Rightarrow> bytes" where
  "signed_payload js r =
     as_bytes (json_print js (json_object
       [(''consumer_device_public_key'', JStr (rq_consumer_device_public_key r)),
        (''provider_device_public_key'', JStr (rq_provider_device_public_key r)),
        (''provider_instance_nonce'', JStr (rq_provider_instance_nonce r)),
        (''provider_endpoint'', JStr (rq_provider_endpoint r)),
        (''listener_transport'', JStr (rq_listener_transport r)),
        (''listener_cert_fingerprint'', JStr (rq_listener_cert_fingerprint r))]))"

definition request_fields :: "string list" where
  "request_fields = [''consumer_device_public_key'', ''provider_device_public_key'', ''provider_instance_nonce'',
     ''provider_endpoint'', ''listener_transport'', ''listener_cert_fingerprint'', ''consumer_signature'']"

definition request_json :: "PeerShareIntroductionRequest \<Rightarrow> json" where
  "request_json r = JObj (zip request_fields (map JStr
     [rq_consumer_device_public_key r, rq_provider_device_public_key r, rq_provider_instance_nonce r,
      rq_provider_endpoint r, rq_listener_transport r, rq_listener_cert_fingerprint r, rq_consumer_signature r]))"

definition decode_request :: "json \<Rightarrow> PeerShareIntroductionRequest option" where
  "decode_request v =
     (case map_option (map str_field) (serde_fields request_fields v) of
        Some [Some consumer, Some provider, Some nonce, Some endpoint, Some transport, Some fingerprint, Some signature] \<Rightarrow>
          Some \<lparr> rq_consumer_device_public_key = consumer, rq_provider_device_public_key = provider,
                 rq_provider_instance_nonce = nonce, rq_provider_endpoint = endpoint,
                 rq_listener_transport = transport, rq_listener_cert_fingerprint = fingerprint,
                 rq_consumer_signature = signature \<rparr>
      | _ \<Rightarrow> None)"

definition claims_fields :: "string list" where
  "claims_fields = [''consumer_device_public_key'', ''provider_device_public_key'', ''provider_instance_nonce'',
     ''provider_endpoint'', ''listener_transport'', ''listener_cert_fingerprint'', ''expires_at'']"

definition claims_json :: "PeerShareIntroductionClaims \<Rightarrow> json" where
  "claims_json c = JObj (zip claims_fields (map JStr
     [cl_consumer_device_public_key c, cl_provider_device_public_key c, cl_provider_instance_nonce c,
      cl_provider_endpoint c, cl_listener_transport c, cl_listener_cert_fingerprint c] @
      [JNum (int (unat (cl_expires_at c)))]))"

definition decode_claims :: "json \<Rightarrow> PeerShareIntroductionClaims option" where
  "decode_claims v =
     (case serde_fields claims_fields v of
        Some [consumer, provider, nonce, endpoint, transport, fingerprint, expires] \<Rightarrow>
          (case (map str_field [consumer, provider, nonce, endpoint, transport, fingerprint],
                 uint_field (2 ^ 64 - 1) expires) of
             ([Some consumer, Some provider, Some nonce, Some endpoint, Some transport, Some fingerprint], Some e) \<Rightarrow>
               Some \<lparr> cl_consumer_device_public_key = consumer, cl_provider_device_public_key = provider,
                      cl_provider_instance_nonce = nonce, cl_provider_endpoint = endpoint,
                      cl_listener_transport = transport, cl_listener_cert_fingerprint = fingerprint,
                      cl_expires_at = of_nat e \<rparr>
           | _ \<Rightarrow> None)
      | _ \<Rightarrow> None)"

definition signing_payload :: "json_codec \<Rightarrow> PeerShareIntroductionClaims \<Rightarrow> bytes" where
  "signing_payload js c = as_bytes (json_print js (claims_json c))"

definition signed_json :: "SignedPeerShareIntroduction \<Rightarrow> json" where
  "signed_json s = JObj [(''introduction'', claims_json (si_introduction s)), (''server_signature'', JStr (si_server_signature s))]"

definition decode_signed :: "json \<Rightarrow> SignedPeerShareIntroduction option" where
  "decode_signed v =
     (case serde_fields [''introduction'', ''server_signature''] v of
        Some [i, s] \<Rightarrow>
          (case (Option.bind i decode_claims, str_field s) of
             (Some c, Some sg) \<Rightarrow> Some \<lparr> si_introduction = c, si_server_signature = sg \<rparr>
           | _ \<Rightarrow> None)
      | _ \<Rightarrow> None)"

definition registration_json :: "PeerRelayRegistration \<Rightarrow> json" where
  "registration_json r = JObj [(''introduction'', signed_json (pr_introduction r))]"

definition decode_registration :: "json \<Rightarrow> PeerRelayRegistration option" where
  "decode_registration v =
     (case serde_fields [''introduction''] v of
        Some [i] \<Rightarrow> map_option (\<lambda>s. \<lparr> pr_introduction = s \<rparr>) (Option.bind i decode_signed)
      | _ \<Rightarrow> None)"

definition into_control_frame :: "json_codec \<Rightarrow> PeerRelayRegistration \<Rightarrow> SessionFrame" where
  "into_control_frame js r =
     \<lparr> f_header = \<lparr> h_connection_id = 0, h_sequence = 0, h_flags = FLAG_PEER_RELAY_REGISTRATION \<rparr>,
       f_payload = as_bytes (json_print js (registration_json r)) \<rparr>"

definition from_control_frame :: "json_codec \<Rightarrow> SessionFrame \<Rightarrow> PeerRelayRegistration option" where
  "from_control_frame js frame =
     (if h_flags (f_header frame) AND FLAG_PEER_RELAY_REGISTRATION = 0 then None
      else Option.bind (json_parse js (bytes_str (f_payload frame))) decode_registration)"

subsection \<open>TXT records\<close>

definition txt_records :: "PeerShareAdvertisement \<Rightarrow> (string \<times> string) list" where
  "txt_records a =
     [(''version'', show_nat (unat (ad_version a))), (''device_key'', ad_device_key a),
      (''server_key'', ad_server_public_key a), (''instance_nonce'', ad_instance_nonce a),
      (''endpoint'', ad_endpoint a), (''cert_fingerprint'', ad_listener_cert_fingerprint a),
      (''capabilities'', join_char (CHR '','') (ad_capabilities a))]"

datatype TxtError = MissingRecord string | BadVersion

definition required_txt_record :: "(string \<rightharpoonup> string) \<Rightarrow> string \<Rightarrow> (TxtError, string) res" where
  "required_txt_record records key = ok_or (MissingRecord key) (records key)"

definition from_txt_record_map :: "(string \<rightharpoonup> string) \<Rightarrow> (TxtError, PeerShareAdvertisement) res" where
  "from_txt_record_map records =
     res_bind (required_txt_record records ''version'') (\<lambda>v.
     res_bind (ok_or BadVersion (parse_uint 65535 v)) (\<lambda>version.
     res_bind (required_txt_record records ''device_key'') (\<lambda>device.
     res_bind (required_txt_record records ''server_key'') (\<lambda>server.
     res_bind (required_txt_record records ''instance_nonce'') (\<lambda>nonce.
     res_bind (required_txt_record records ''endpoint'') (\<lambda>endpoint.
     res_bind (required_txt_record records ''cert_fingerprint'') (\<lambda>fingerprint.
     res_bind (required_txt_record records ''capabilities'') (\<lambda>caps.
       Ok \<lparr> ad_version = of_nat version, ad_device_key = device, ad_server_public_key = server,
            ad_instance_nonce = nonce, ad_endpoint = endpoint, ad_listener_cert_fingerprint = fingerprint,
            ad_capabilities = filter (\<lambda>c. c \<noteq> []) (split_char (CHR '','') caps) \<rparr>))))))))"

subsection \<open>Binding a session\<close>

record SessionBinding =
  sb_client_public_key :: string
  sb_initial_frame :: "SessionFrame option"
  sb_relayed_via_provider :: bool

datatype BindingError =
    NoFirstFrame TransportError | BadRegistration | BadIntroduction AuthError | ProviderMismatch | IntroductionExpired

definition verify_relay_registration ::
  "crypto \<Rightarrow> json_codec \<Rightarrow> u64 \<Rightarrow> SignedPeerShareIntroduction \<Rightarrow> string \<Rightarrow> DeviceKeypair \<Rightarrow> (BindingError, unit) res" where
  "verify_relay_registration cr js now introduction authenticated_provider_key server_identity =
     (let claims = si_introduction introduction
      in case verify_signature cr (public_key_b64 server_identity) (signing_payload js claims)
                (si_server_signature introduction) of
           Inl e \<Rightarrow> Err (BadIntroduction e)
         | Inr _ \<Rightarrow>
             if cl_provider_device_public_key claims \<noteq> authenticated_provider_key then Err ProviderMismatch
             else if cl_expires_at claims \<le> now then Err IntroductionExpired
             else Ok ())"

definition resolve_session_binding ::
  "crypto \<Rightarrow> json_codec \<Rightarrow> u64 \<Rightarrow> (TransportError, SessionFrame) res \<Rightarrow> string \<Rightarrow> DeviceKeypair
   \<Rightarrow> (BindingError, SessionBinding) res" where
  "resolve_session_binding cr js now received authenticated_public_key server_identity =
     (case received of
        Inl e \<Rightarrow> Err (NoFirstFrame e)
      | Inr first_frame \<Rightarrow>
          if h_flags (f_header first_frame) AND FLAG_PEER_RELAY_REGISTRATION = 0 then
            Ok \<lparr> sb_client_public_key = authenticated_public_key, sb_initial_frame = Some first_frame,
                 sb_relayed_via_provider = False \<rparr>
          else case from_control_frame js first_frame of
                 None \<Rightarrow> Err BadRegistration
               | Some registration \<Rightarrow>
                   res_bind (verify_relay_registration cr js now (pr_introduction registration)
                       authenticated_public_key server_identity) (\<lambda>_.
                     Ok \<lparr> sb_client_public_key =
                            cl_consumer_device_public_key (si_introduction (pr_introduction registration)),
                          sb_initial_frame = None, sb_relayed_via_provider = True \<rparr>))"

subsection \<open>Round trips\<close>

lemma decode_claims_json [simp]: "decode_claims (claims_json c) = Some c"
  using uint_bounded [of "cl_expires_at c"]
  by (cases c) (simp add: decode_claims_def claims_json_def serde_fields_def claims_fields_def)

lemma decode_request_json [simp]: "decode_request (request_json r) = Some r"
  by (cases r) (simp add: decode_request_def request_json_def serde_fields_def request_fields_def)

lemma decode_signed_json [simp]: "decode_signed (signed_json s) = Some s"
  by (cases s) (simp add: decode_signed_def signed_json_def serde_fields_def)

lemma decode_registration_json [simp]: "decode_registration (registration_json r) = Some r"
  by (cases r) (simp add: decode_registration_def registration_json_def serde_fields_def)

lemma control_frame_roundtrip [simp]:
  assumes "json_ok js"
  shows "from_control_frame js (into_control_frame js r) = Some r"
  using json_okD(4) [OF assms]
  by (simp add: from_control_frame_def into_control_frame_def FLAG_PEER_RELAY_REGISTRATION_def)

lemma split_join_nonempty:
  assumes "\<forall>c \<in> set cs. c \<noteq> [] \<and> d \<notin> set c"
  shows "filter (\<lambda>c. c \<noteq> []) (split_char d (join_char d cs)) = cs"
  using assms split_join_char [of cs d] by (cases "cs = []") (auto simp: filter_id_conv)

text \<open>
  An advertisement is read back from its TXT records, whatever its fields are, as long as every
  capability is a non-empty name without a comma.
\<close>

theorem advertisement_txt_roundtrip:
  assumes "\<forall>c \<in> set (ad_capabilities a). c \<noteq> [] \<and> CHR '','' \<notin> set c"
  shows "from_txt_record_map (map_of (txt_records a)) = Ok a"
  using split_join_nonempty [OF assms] unat_bound [of "ad_version a"]
  by (cases a) (simp add: from_txt_record_map_def txt_records_def required_txt_record_def)

theorem advertisement_txt_roundtrip_witness:
  "from_txt_record_map (map_of (txt_records
     \<lparr> ad_version = 1, ad_device_key = ''d'', ad_server_public_key = ''s'', ad_instance_nonce = ''n'', ad_endpoint = ''e:1'',
       ad_listener_cert_fingerprint = ''f'', ad_capabilities = [''relay'', ''tcp''] \<rparr>)) =
   Ok \<lparr> ad_version = 1, ad_device_key = ''d'', ad_server_public_key = ''s'', ad_instance_nonce = ''n'', ad_endpoint = ''e:1'',
       ad_listener_cert_fingerprint = ''f'', ad_capabilities = [''relay'', ''tcp''] \<rparr>"
  by (rule advertisement_txt_roundtrip) simp

end
