(* ===== verification/Http.thy ===== *)
theory Http
  imports Transport Strings
begin

text \<open>
  The HTTP/1.1 of the bootstrap listener: reading and parsing of a request and the text of a response
  (\<^verbatim>\<open>bonded-server/src/bootstrap.rs\<close>), and the client's request and its reading of the response
  (\<^verbatim>\<open>bonded-client/src/lib.rs\<close>).  Whether bytes are UTF-8 is the parameter \<open>utf8\<close>.
\<close>

subsection \<open>Searching\<close>

fun find_sub :: "'a list \<Rightarrow> 'a list \<Rightarrow> nat option" where
  "find_sub p [] = (if p = [] then Some 0 else None)"
| "find_sub p (c # s) = (if take (length p) (c # s) = p then Some 0 else map_option Suc (find_sub p s))"

fun find_map :: "('a \<Rightarrow> 'b option) \<Rightarrow> 'a list \<Rightarrow> 'b option" where
  "find_map f [] = None"
| "find_map f (x # xs) = (case f x of None \<Rightarrow> find_map f xs | Some y \<Rightarrow> Some y)"

definition CRLF :: string where "CRLF = [CHR 0x0D, CHR 0x0A]"

definition HEADER_END :: string where "HEADER_END = CRLF @ CRLF"

definition str_split_once :: "string \<Rightarrow> string \<Rightarrow> (string \<times> string) option" where
  "str_split_once p s = map_option (\<lambda>i. (take i s, drop (i + length p) s)) (find_sub p s)"

subsection \<open>Reading a request\<close>

definition MAX_HEADER_BYTES :: nat where "MAX_HEADER_BYTES = 16 * 1024"

definition find_header_terminator :: "bytes \<Rightarrow> nat option" where
  "find_header_terminator buf = find_sub (as_bytes HEADER_END) buf"

definition text_of :: "(bytes \<Rightarrow> bool) \<Rightarrow> bytes \<Rightarrow> string" where
  "text_of utf8 b = (if utf8 b then bytes_str b else [])"

definition header_field :: "string \<Rightarrow> string \<Rightarrow> string option" where
  "header_field name line =
     (case split_once (CHR '':'') line of
        None \<Rightarrow> None
      | Some (n, v) \<Rightarrow> if eq_ignore_ascii_case (trim n) name then Some (trim v) else None)"

definition parse_content_length :: "(bytes \<Rightarrow> bool) \<Rightarrow> bytes \<Rightarrow> nat" where
  "parse_content_length utf8 headers =
     (case find_map (\<lambda>line. Option.bind (header_field ''content-length'' line) (parse_uint (2 ^ 64 - 1)))
             (str_lines (text_of utf8 headers)) of
        None \<Rightarrow> 0 | Some n \<Rightarrow> n)"

definition is_upgrade_line :: "string \<Rightarrow> bool" where
  "is_upgrade_line line =
     (let lower = to_ascii_lowercase line in starts_with ''upgrade:'' lower \<and> contains_str ''websocket'' lower)"

definition is_websocket_upgrade :: "(bytes \<Rightarrow> bool) \<Rightarrow> bytes \<Rightarrow> bool" where
  "is_websocket_upgrade utf8 request = list_ex is_upgrade_line (str_lines (text_of utf8 request))"

datatype HttpError = HeadersTooLong | ReadError | ClosedInHeaders | ClosedInBody | NoTerminator

function read_headers :: "read_event list \<Rightarrow> bytes \<Rightarrow> (HttpError, bytes) res poll \<times> read_event list \<times> bytes" where
  "read_headers evs buf =
     (if MAX_HEADER_BYTES \<le> length buf then (Ready (Err HeadersTooLong), evs, buf)
      else case stream_read 256 evs of
             (Pending, evs') \<Rightarrow> (Pending, evs', buf)
           | (Ready (Inl e), evs') \<Rightarrow> (Ready (Err ReadError), evs', buf)
           | (Ready (Inr d), evs') \<Rightarrow>
               if d = [] then (Ready (Err ClosedInHeaders), evs', buf)
               else let buf = buf @ d
                    in if find_header_terminator buf \<noteq> None then (Ready (Ok buf), evs', buf)
                       else read_headers evs' buf)"
  by pat_completeness auto
termination
  by (relation "measure (\<lambda>(evs, _). sum_list (map event_size evs))") (auto dest!: stream_read_decreases [rotated])

declare read_headers.simps [simp del]

function read_body :: "nat \<Rightarrow> read_event list \<Rightarrow> bytes \<Rightarrow> (HttpError, bytes) res poll \<times> read_event list" where
  "read_body target_len evs buf =
     (if target_len \<le> length buf then (Ready (Ok buf), evs)
      else case stream_read 256 evs of
             (Pending, evs') \<Rightarrow> (Pending, evs')
           | (Ready (Inl e), evs') \<Rightarrow> (Ready (Err ReadError), evs')
           | (Ready (Inr d), evs') \<Rightarrow>
               if d = [] then (Ready (Err ClosedInBody), evs') else read_body target_len evs' (buf @ d))"
  by pat_completeness auto
termination
  by (relation "measure (\<lambda>(_, evs, _). sum_list (map event_size evs))") (auto dest!: stream_read_decreases [rotated])

declare read_body.simps [simp del]

text \<open>The sum that gives the length of the whole request wraps as \<^verbatim>\<open>usize\<close>.\<close>

definition read_until_end_of_headers ::
  "(bytes \<Rightarrow> bool) \<Rightarrow> read_event list \<Rightarrow> (HttpError, bytes \<times> bool) res poll \<times> read_event list" where
  "read_until_end_of_headers utf8 evs =
     (case read_headers evs [] of
        (Pending, evs', _) \<Rightarrow> (Pending, evs')
      | (Ready (Inl e), evs', _) \<Rightarrow> (Ready (Err e), evs')
      | (Ready (Inr buf), evs', _) \<Rightarrow>
          (case find_header_terminator buf of
             None \<Rightarrow> (Ready (Err NoTerminator), evs')
           | Some header_end \<Rightarrow>
               let content_length = parse_content_length utf8 (take header_end buf);
                   target_len = (header_end + 4 + content_length) mod 2 ^ 64
               in case read_body target_len evs' buf of
                    (Pending, evs'') \<Rightarrow> (Pending, evs'')
                  | (Ready (Inl e), evs'') \<Rightarrow> (Ready (Err e), evs'')
                  | (Ready (Inr buf), evs'') \<Rightarrow> (Ready (Ok (buf, is_websocket_upgrade utf8 buf)), evs'')))"

definition parse_request_parts :: "(bytes \<Rightarrow> bool) \<Rightarrow> bytes \<Rightarrow> string \<times> string \<times> string" where
  "parse_request_parts utf8 request =
     (let text = text_of utf8 request;
          first_line = (case str_lines text of [] \<Rightarrow> [] | l # _ \<Rightarrow> l);
          (m, path) = (case split_once (CHR '' '') first_line of
                         None \<Rightarrow> (first_line, ''/'')
                       | Some (m, rest) \<Rightarrow>
                           (m, case split_once (CHR '' '') rest of None \<Rightarrow> rest | Some (p, _) \<Rightarrow> p));
          body = (case find_sub HEADER_END text of None \<Rightarrow> [] | Some idx \<Rightarrow> drop (idx + 4) text)
      in (m, path, body))"

definition parse_host_header :: "(bytes \<Rightarrow> bool) \<Rightarrow> bytes \<Rightarrow> string option" where
  "parse_host_header utf8 request =
     (case find_header_terminator request of
        None \<Rightarrow> None
      | Some header_end \<Rightarrow>
          if \<not> utf8 (take header_end request) then None
          else find_map (\<lambda>line. case header_field ''host'' line of
                                  None \<Rightarrow> None | Some authority \<Rightarrow> if authority = [] then None else Some authority)
                 (str_lines (bytes_str (take header_end request))))"

subsection \<open>Responses\<close>

datatype StatusCode = OK | BAD_REQUEST | UNAUTHORIZED | FORBIDDEN | NOT_FOUND | INTERNAL_SERVER_ERROR | NOT_IMPLEMENTED

fun status_code :: "StatusCode \<Rightarrow> nat" where
  "status_code OK = 200"
| "status_code BAD_REQUEST = 400"
| "status_code UNAUTHORIZED = 401"
| "status_code FORBIDDEN = 403"
| "status_code NOT_FOUND = 404"
| "status_code INTERNAL_SERVER_ERROR = 500"
| "status_code NOT_IMPLEMENTED = 501"

fun canonical_reason :: "StatusCode \<Rightarrow> string" where
  "canonical_reason OK = ''OK''"
| "canonical_reason BAD_REQUEST = ''Bad Request''"
| "canonical_reason UNAUTHORIZED = ''Unauthorized''"
| "canonical_reason FORBIDDEN = ''Forbidden''"
| "canonical_reason NOT_FOUND = ''Not Found''"
| "canonical_reason INTERNAL_SERVER_ERROR = ''Internal Server Error''"
| "canonical_reason NOT_IMPLEMENTED = ''Not Implemented''"

definition rest_response :: "StatusCode \<times> string \<Rightarrow> string" where
  "rest_response = (\<lambda>(status, body).
     ''HTTP/1.1 '' @ show_nat (status_code status) @ '' '' @ canonical_reason status @ CRLF @
     ''content-type: application/json'' @ CRLF @ ''content-length: '' @ show_nat (length body) @ CRLF @
     ''connection: close'' @ HEADER_END @ body)"

subsection \<open>The client\<close>

definition build_http_request :: "string \<Rightarrow> string \<Rightarrow> string \<Rightarrow> string option \<Rightarrow> string" where
  "build_http_request m host path body =
     (case body of
        Some b \<Rightarrow>
          m @ '' '' @ path @ '' HTTP/1.1'' @ CRLF @ ''Host: '' @ host @ CRLF @ ''Content-Type: application/json'' @ CRLF @
          ''Content-Length: '' @ show_nat (length b) @ CRLF @ ''Connection: close'' @ HEADER_END @ b
      | None \<Rightarrow> m @ '' '' @ path @ '' HTTP/1.1'' @ CRLF @ ''Host: '' @ host @ CRLF @ ''Connection: close'' @ HEADER_END)"

datatype ResponseError = NonUtf8 | MissingTerminator | MissingStatus | RequestFailed string

definition extract_http_json_body :: "(bytes \<Rightarrow> bool) \<Rightarrow> bytes \<Rightarrow> (ResponseError, string) res" where
  "extract_http_json_body utf8 raw =
     (if \<not> utf8 raw then Err NonUtf8
      else case str_split_once HEADER_END (bytes_str raw) of
             None \<Rightarrow> Err MissingTerminator
           | Some (headers, body) \<Rightarrow>
               (case str_lines headers of
                  [] \<Rightarrow> Err MissingStatus
                | status_line # _ \<Rightarrow>
                    if contains_str '' 200 '' status_line then Ok (trim body) else Err (RequestFailed status_line)))"

definition split_host_port :: "string \<Rightarrow> (string \<times> u16) option" where
  "split_host_port address =
     (case address of
        c # stripped \<Rightarrow>
          if c = CHR ''['' then
            (case split_once (CHR '']'') stripped of
               None \<Rightarrow> None
             | Some (host, rest) \<Rightarrow>
                 (case strip_prefix '':'' rest of
                    None \<Rightarrow> None
                  | Some p \<Rightarrow> map_option (\<lambda>n. (host, of_nat n)) (parse_uint 65535 p)))
          else (case rsplit_once (CHR '':'') address of
                  None \<Rightarrow> None
                | Some (host, p) \<Rightarrow> map_option (\<lambda>n. (host, of_nat n)) (parse_uint 65535 p))
      | [] \<Rightarrow> None)"

subsection \<open>Lines and terminators\<close>

lemma find_sub_skip:
  "c \<notin> set l \<Longrightarrow> find_sub (c # p) (l @ t) = map_option (\<lambda>i. length l + i) (find_sub (c # p) t)"
proof (induction l)
  case Nil
  then show ?case by (cases "find_sub (c # p) t") simp_all
next
  case (Cons a l)
  then show ?case by (cases "find_sub (c # p) t") auto
qed

lemma find_sub_SomeD: "find_sub p s = Some i \<Longrightarrow> \<exists>b. s = take i s @ p @ b \<and> i \<le> length s"
proof (induction s arbitrary: i)
  case (Cons c s)
  show ?case
  proof (cases "take (length p) (c # s) = p")
    case True
    with Cons.prems show ?thesis
      using append_take_drop_id [of "length p" "c # s"] by (metis append_Nil find_sub.simps(2) le0 option.sel take0)
  next
    case False
    with Cons.prems obtain j where j: "i = Suc j" "find_sub p s = Some j" by auto
    with Cons.IH show ?thesis by fastforce
  qed
qed (auto split: if_splits)

lemma find_sub_exists: "find_sub p (a @ p @ b) \<noteq> None"
proof (induction a)
  case Nil
  have "take (length p) (p @ b) = p" by simp
  then show ?case by (cases "p @ b") auto
qed auto

lemma find_sub_append: "find_sub p s = Some i \<Longrightarrow> find_sub p (s @ t) = Some i"
proof (induction s arbitrary: i)
  case Nil
  then show ?case by (cases t) (auto split: if_splits)
next
  case (Cons c s)
  show ?case
  proof (cases "take (length p) (c # s) = p")
    case True
    then have "length p \<le> length (c # s)" by (metis length_take min.cobounded1)
    then have "take (length p) ((c # s) @ t) = p" using True by (metis append_Nil2 diff_is_0_eq take_0 take_append)
    with True Cons.prems show ?thesis by simp
  next
    case False
    with Cons.prems obtain j where j: "i = Suc j" "find_sub p s = Some j" by auto
    then have "length p \<le> length s" using find_sub_SomeD [OF j(2)] by (metis le_add1 le_add2 le_trans length_append)
    with False have "take (length p) (c # s @ t) \<noteq> p" by (cases p) auto
    with j Cons.IH show ?thesis by simp
  qed
qed

lemma find_sub_map: "inj f \<Longrightarrow> find_sub (map f p) (map f s) = find_sub p s"
proof (induction s)
  case (Cons c s)
  have "take (length p) (map f (c # s)) = map f p \<longleftrightarrow> take (length p) (c # s) = p"
    by (simp only: take_map inj_map_eq_map [OF Cons.prems])
  with Cons show ?case by simp
qed simp

lemma as_bytes_map: "as_bytes = map (\<lambda>c. of_nat (char_code c))" "inj (\<lambda>c. of_nat (char_code c) :: byte)"
proof -
  show "as_bytes = map (\<lambda>c. of_nat (char_code c))" by (simp add: as_bytes_def fun_eq_iff)
  show "inj (\<lambda>c. of_nat (char_code c) :: byte)"
    by (rule injI) (use as_bytes_inj [of "[_]" "[_]"] in \<open>auto simp: as_bytes_def\<close>)
qed

lemma find_terminator_text: "find_header_terminator (as_bytes s) = find_sub HEADER_END s"
  unfolding find_header_terminator_def as_bytes_map(1) by (rule find_sub_map [OF as_bytes_map(2)])

text \<open>A line of a header: not empty and without control characters of line ends.\<close>

definition plain_line :: "string \<Rightarrow> bool" where
  "plain_line l \<longleftrightarrow> l \<noteq> [] \<and> CHR 0x0A \<notin> set l \<and> CHR 0x0D \<notin> set l"

lemma plain_lineD: "plain_line l \<Longrightarrow> CHR 0x0A \<notin> set l \<and> (l = [] \<or> last l \<noteq> CHR 0x0D)"
  by (metis last_in_set plain_line_def)

fun header_text :: "string list \<Rightarrow> string" where
  "header_text [] = []"
| "header_text [l] = l"
| "header_text (l # ls) = l @ CRLF @ header_text ls"

lemma header_text_Cons: "ls \<noteq> [] \<Longrightarrow> header_text (l # ls) = l @ CRLF @ header_text ls"
  by (cases ls) simp_all

lemma find_header_end:
  assumes "ls \<noteq> []" "\<forall>l \<in> set ls. plain_line l"
  shows "find_sub HEADER_END (header_text ls @ HEADER_END @ body) = Some (length (header_text ls))"
  using assms
proof (induction ls rule: header_text.induct)
  case (2 l)
  then have "CHR 0x0D \<notin> set l" by (simp add: plain_line_def)
  then show ?case using find_sub_skip [of "CHR 0x0D" l _ "HEADER_END @ body"] by (simp add: HEADER_END_def CRLF_def)
next
  case (3 l l' ls)
  then have l: "CHR 0x0D \<notin> set l" "plain_line l'" by (simp_all add: plain_line_def)
  have "\<exists>c cs. header_text (l' # ls) = c # cs \<and> c \<noteq> CHR 0x0D"
    using l(2) by (cases l'; cases ls) (auto simp: plain_line_def)
  then obtain c cs where c: "header_text (l' # ls) = c # cs" "c \<noteq> CHR 0x0D" by blast
  with 3 show ?case
    using find_sub_skip [of "CHR 0x0D" l _ "CRLF @ header_text (l' # ls) @ HEADER_END @ body"] l(1)
    by (simp add: HEADER_END_def CRLF_def option.map_comp comp_def)
qed simp

lemma str_lines_header:
  assumes "\<forall>l \<in> set ls. plain_line l"
  shows "str_lines (header_text ls @ CRLF @ t) = ls @ (if ls = [] then [[]] else []) @ str_lines t"
  using assms
proof (induction ls rule: header_text.induct)
  case 1
  then show ?case using str_lines_crlf [of "[]" t] by (simp add: CRLF_def)
next
  case (2 l)
  then show ?case using str_lines_crlf [of l t] plain_lineD [of l] by (simp add: CRLF_def)
next
  case (3 l l' ls)
  then show ?case
    using str_lines_crlf [of l "header_text (l' # ls) @ CRLF @ t"] plain_lineD [of l] by (simp add: CRLF_def)
qed

lemma str_lines_header_end:
  assumes "ls \<noteq> []" "\<forall>l \<in> set ls. plain_line l"
  shows "str_lines (header_text ls @ HEADER_END @ body) = ls @ [] # str_lines body"
  using str_lines_header [OF assms(2), of "CRLF @ body"] str_lines_crlf [of "[]" body] assms(1)
  by (simp add: HEADER_END_def CRLF_def)

lemma str_lines_no_lf: "CHR 0x0A \<notin> set l \<Longrightarrow> l \<noteq> [] \<Longrightarrow> last l \<noteq> CHR 0x0D \<Longrightarrow> str_lines l = [l]"
  by (simp add: str_lines_def split_char_no_sep)

lemma str_lines_header_only:
  assumes "ls \<noteq> []" "\<forall>l \<in> set ls. plain_line l"
  shows "str_lines (header_text ls) = ls"
  using assms
proof (induction ls rule: header_text.induct)
  case (2 l)
  then show ?case using str_lines_no_lf [of l] plain_lineD [of l] by (simp add: plain_line_def)
next
  case (3 l l' ls)
  then show ?case using str_lines_crlf [of l "header_text (l' # ls)"] plain_lineD [of l] by (simp add: CRLF_def)
qed simp

subsection \<open>Reading\<close>

text \<open>What the loops do on a socket that holds nothing but the bytes of a request.\<close>

lemma terminator_prefix:
  assumes "find_header_terminator (buf @ rest) = Some h" "find_header_terminator buf = None"
  shows "length buf < h + 4"
proof (rule ccontr)
  let ?p = "as_bytes HEADER_END"
  assume "\<not> length buf < h + 4"
  then have l: "h + 4 \<le> length buf" by simp
  obtain b where b: "buf @ rest = take h (buf @ rest) @ ?p @ b" "h \<le> length (buf @ rest)"
    using find_sub_SomeD assms(1) unfolding find_header_terminator_def by blast
  have p: "length ?p = 4" by (simp add: HEADER_END_def CRLF_def as_bytes_def)
  obtain a where a: "buf @ rest = a @ ?p @ b" "length a = h" using b by (metis length_take min.absorb2)
  have "take (h + 4) (a @ ?p @ b) = a @ ?p" using a(2) p by simp
  moreover have "take (h + 4) (buf @ rest) = take (h + 4) buf" "take h buf = take h (buf @ rest)" using l by simp_all
  ultimately have "take (h + 4) buf = take h buf @ ?p" using a by simp
  then have "buf = take h buf @ ?p @ drop (h + 4) buf" by (metis append_assoc append_take_drop_id)
  then have "find_header_terminator buf \<noteq> None" unfolding find_header_terminator_def using find_sub_exists by metis
  with assms(2) show False by simp
qed

lemma read_headers_only_data:
  assumes "only_data evs" "buf @ socket_data evs = data" "find_header_terminator buf = None"
    and "find_header_terminator data = Some h" "h + 4 \<le> MAX_HEADER_BYTES"
  shows "\<exists>buf' evs'. read_headers evs buf = (Ready (Ok buf'), evs', buf') \<and> only_data evs' \<and>
    buf' @ socket_data evs' = data \<and> find_header_terminator buf' \<noteq> None"
  using assms
proof (induction evs buf rule: read_headers.induct)
  case (1 evs buf)
  have small: "\<not> MAX_HEADER_BYTES \<le> length buf" using terminator_prefix [of buf "socket_data evs" h] 1(2-) by simp
  obtain r evs' where r: "stream_read 256 evs = (r, evs')" by fastforce
  note sr = stream_read_only_data [OF 1(2), of 256, unfolded r]
  show ?case
  proof (cases r)
    case Pending
    with sr 1(3-5) show ?thesis by simp
  next
    case (Ready x)
    then obtain d where x: "x = Inr d" using sr by (cases x) auto
    with sr Ready have d: "d \<noteq> []" "only_data evs'" "socket_data evs = d @ socket_data evs'" by auto
    show ?thesis
    proof (cases "find_header_terminator (buf @ d)")
      case (Some i)
      with r Ready x d small 1(3) show ?thesis by (simp add: read_headers.simps [of evs buf] Let_def)
    next
      case None
      with 1(1) [OF small r [symmetric] Ready x d(1) refl] 1(3-) d r Ready x small
      show ?thesis by (simp add: read_headers.simps [of evs buf] Let_def)
    qed
  qed
qed

lemma read_body_only_data:
  assumes "only_data evs" "target \<le> length (buf @ socket_data evs)"
  shows "\<exists>buf' evs'. read_body target evs buf = (Ready (Ok buf'), evs') \<and>
    buf' @ socket_data evs' = buf @ socket_data evs \<and> target \<le> length buf'"
  using assms
proof (induction target evs buf rule: read_body.induct)
  case (1 target evs buf)
  show ?case
  proof (cases "target \<le> length buf")
    case True
    then show ?thesis by (simp add: read_body.simps [of target evs])
  next
    case False
    obtain r evs' where r: "stream_read 256 evs = (r, evs')" by fastforce
    note sr = stream_read_only_data [OF 1(2), of 256, unfolded r]
    show ?thesis
    proof (cases r)
      case Pending
      with sr 1(3) False show ?thesis by simp
    next
      case (Ready x)
      then obtain d where x: "x = Inr d" using sr by (cases x) auto
      with sr Ready have d: "d \<noteq> []" "only_data evs'" "socket_data evs = d @ socket_data evs'" by auto
      from 1(1) [OF False r [symmetric] Ready x d(1) d(2)] 1(3) d r Ready x False
      show ?thesis by (simp add: read_body.simps [of target evs])
    qed
  qed
qed

text \<open>A request whose header lines announce the length of its body is read as a whole.\<close>

lemma read_request:
  assumes "ls \<noteq> []" "\<forall>l \<in> set ls. plain_line l" "length (header_text ls) + 4 \<le> MAX_HEADER_BYTES"
    and "parse_content_length utf8 (as_bytes (header_text ls)) = length body" "length body < 2 ^ 63"
    and "only_data evs" "socket_data evs = as_bytes (header_text ls @ HEADER_END @ body)"
  shows "\<exists>evs'. read_until_end_of_headers utf8 evs =
    (Ready (Ok (socket_data evs, is_websocket_upgrade utf8 (socket_data evs))), evs')"
proof -
  let ?req = "header_text ls @ HEADER_END @ body" and ?h = "length (header_text ls)"
  have t: "find_header_terminator (as_bytes ?req) = Some ?h"
    unfolding find_terminator_text by (rule find_header_end [OF assms(1,2)])
  have "find_header_terminator [] = None" by (simp add: find_header_terminator_def HEADER_END_def CRLF_def as_bytes_def)
  then obtain buf evs1 where r: "read_headers evs [] = (Ready (Ok buf), evs1, buf)" "only_data evs1"
    "buf @ socket_data evs1 = as_bytes ?req" "find_header_terminator buf \<noteq> None"
    using read_headers_only_data [of evs "[]" "as_bytes ?req" ?h] assms(3,6,7) t by auto
  have b: "find_header_terminator buf = Some ?h"
    using r(4) t find_sub_append [of "as_bytes HEADER_END" buf] unfolding find_header_terminator_def r(3) [symmetric] by auto
  then have "?h \<le> length buf" using find_sub_SomeD unfolding find_header_terminator_def by blast
  then have "take ?h buf = take ?h (as_bytes ?req)" unfolding r(3) [symmetric] by simp
  then have h: "take ?h buf = as_bytes (header_text ls)" by (simp add: as_bytes_def)
  have len: "length (as_bytes ?req) = ?h + 4 + length body" by (simp add: as_bytes_def HEADER_END_def CRLF_def)
  have m: "(?h + 4 + length body) mod 2 ^ 64 = ?h + 4 + length body"
    using assms(3,5) by (simp add: MAX_HEADER_BYTES_def)
  obtain buf' evs2 where b2: "read_body (?h + 4 + length body) evs1 buf = (Ready (Ok buf'), evs2)"
    "buf' @ socket_data evs2 = as_bytes ?req" "?h + 4 + length body \<le> length buf'"
    using read_body_only_data [OF r(2), of "?h + 4 + length body" buf] r(3) len by auto
  moreover have "length (socket_data evs2) = 0" using arg_cong [OF b2(2), of length] b2(3) len unfolding length_append by linarith
  ultimately show ?thesis using r(1) b h m assms(4,7) by (simp add: read_until_end_of_headers_def Let_def)
qed

text \<open>The lines of the client's requests.\<close>

definition request_lines :: "string \<Rightarrow> string \<Rightarrow> string \<Rightarrow> string option \<Rightarrow> string list" where
  "request_lines m host path body =
     [m @ '' '' @ path @ '' HTTP/1.1'', ''Host: '' @ host] @
     (case body of None \<Rightarrow> []
      | Some b \<Rightarrow> [''Content-Type: application/json'', ''Content-Length: '' @ show_nat (length b)]) @ [''Connection: close'']"

lemma request_text:
  "build_http_request m host path body =
     header_text (request_lines m host path body) @ HEADER_END @ (case body of None \<Rightarrow> [] | Some b \<Rightarrow> b)"
  by (simp add: build_http_request_def request_lines_def split: option.splits)

lemma header_names:
  "\<not> eq_ignore_ascii_case (trim ''Host'') ''content-length''" "eq_ignore_ascii_case (trim ''Host'') ''host''"
  "\<not> eq_ignore_ascii_case (trim ''Content-Type'') ''content-length''" "eq_ignore_ascii_case (trim ''Content-Length'') ''content-length''"
  "\<not> eq_ignore_ascii_case (trim ''Connection'') ''content-length''"
  by code_simp+

lemma trim_blank: "trim (CHR '' '' # s) = trim s"
  by (simp add: trim_def trim_start_def is_white_def)

lemma header_field_names:
  "header_field ''content-length'' (''Host: '' @ h) = None"
  "header_field ''content-length'' ''Content-Type: application/json'' = None"
  "header_field ''content-length'' (''Content-Length: '' @ v) = Some (trim v)"
  "header_field ''content-length'' ''Connection: close'' = None"
  "header_field ''host'' (''Host: '' @ h) = Some (trim h)"
  using header_names by (simp_all add: header_field_def trim_blank)

lemmas header_field_simps [simp] = header_field_names [unfolded append_Cons append_Nil]

lemma lines_without_colon: "CHR '':'' \<notin> set l \<Longrightarrow> header_field name l = None \<and> \<not> is_upgrade_line l"
proof -
  assume c: "CHR '':'' \<notin> set l"
  have "x = CHR '':''" if "to_lower x = CHR '':''" for x
  proof (cases "65 \<le> char_code x \<and> char_code x \<le> 90")
    case True
    then have "char_code (to_lower x) = char_code x + 32" by (simp add: to_lower_def)
    with that True show ?thesis by simp
  qed (use that in \<open>auto simp: to_lower_def\<close>)
  then have "CHR '':'' \<notin> set (to_ascii_lowercase l)" using c unfolding to_ascii_lowercase_def by (metis image_iff list.set_map)
  then have "\<not> starts_with ''upgrade:'' (to_ascii_lowercase l)"
    unfolding starts_with_def by (metis in_set_takeD list.set_intros(1) list.set_intros(2))
  with c show ?thesis by (simp add: header_field_def split_once_None [THEN iffD2] is_upgrade_line_def)
qed

lemma no_upgrade_lines:
  "\<not> is_upgrade_line (''Host: '' @ h)" "\<not> is_upgrade_line ''Content-Type: application/json''"
  "\<not> is_upgrade_line (''Content-Length: '' @ v)" "\<not> is_upgrade_line ''Connection: close''"
proof -
  have "to_lower (CHR ''H'') \<noteq> CHR ''u''" "to_lower (CHR ''C'') \<noteq> CHR ''u''" by code_simp+
  then show "\<not> is_upgrade_line (''Host: '' @ h)" "\<not> is_upgrade_line ''Content-Type: application/json''"
    "\<not> is_upgrade_line (''Content-Length: '' @ v)" "\<not> is_upgrade_line ''Connection: close''"
    by (simp_all add: is_upgrade_line_def starts_with_def to_ascii_lowercase_def Let_def)
qed

lemmas no_upgrade_simps [simp] = no_upgrade_lines [unfolded append_Cons append_Nil]

text \<open>
  A request of the client, arriving in any pieces, is read completely by the bootstrap listener,
  and method, path, host and body are what the client put in.  It is taken for a WebSocket upgrade
  exactly when a line of its body looks like the header of one.
\<close>

lemma http_request_received:
  assumes "plain_line m" "plain_line path" "plain_line host" "trim host = host"
    and "CHR '' '' \<notin> set m \<union> set path" "CHR '':'' \<notin> set m \<union> set path"
    and "req = build_http_request m host path body" "length req < MAX_HEADER_BYTES"
    and "\<forall>s. set s \<subseteq> set req \<longrightarrow> utf8 (as_bytes s)"
    and "only_data evs" "socket_data evs = as_bytes req"
  shows "\<exists>evs'. read_until_end_of_headers utf8 evs =
      (Ready (Ok (as_bytes req, list_ex is_upgrade_line (str_lines (case body of None \<Rightarrow> [] | Some b \<Rightarrow> b)))), evs') \<and>
    parse_request_parts utf8 (as_bytes req) = (m, path, case body of None \<Rightarrow> [] | Some b \<Rightarrow> b) \<and>
    parse_host_header utf8 (as_bytes req) = Some host"
proof -
  let ?ls = "request_lines m host path body" and ?b = "case body of None \<Rightarrow> [] | Some b \<Rightarrow> b"
  have req: "req = header_text ?ls @ HEADER_END @ ?b" by (simp add: assms(7) request_text)
  have ne: "?ls \<noteq> []" by (simp add: request_lines_def)
  have "CHR 0x0A \<notin> set (show_nat n)" "CHR 0x0D \<notin> set (show_nat n)" for n
    using show_nat_digits [of n] by (auto simp: is_digit_def)
  then have plain: "\<forall>l \<in> set ?ls. plain_line l"
    using assms(1-3) by (auto simp: request_lines_def plain_line_def split: option.splits)
  have u: "utf8 (as_bytes req)" "utf8 (as_bytes (header_text ?ls))" using assms(9) by (auto simp: req)
  let ?l1 = "m @ '' '' @ path @ '' HTTP/1.1''"
  have "CHR '':'' \<notin> set ?l1" using assms(6) by auto
  note l1 = lines_without_colon [OF this]
  have t: "text_of utf8 (as_bytes req) = req" "text_of utf8 (as_bytes (header_text ?ls)) = header_text ?ls"
    using u by (simp_all add: text_of_def)
  have cl: "parse_content_length utf8 (as_bytes (header_text ?ls)) = length ?b"
    unfolding parse_content_length_def t str_lines_header_only [OF ne plain]
    using l1 assms(8) by (cases body) (simp_all add: request_lines_def req MAX_HEADER_BYTES_def)
  have ws: "is_websocket_upgrade utf8 (as_bytes req) = list_ex is_upgrade_line (str_lines ?b)"
    unfolding is_websocket_upgrade_def t unfolding req str_lines_header_end [OF ne plain]
    using l1 [THEN conjunct2] lines_without_colon [of "[]"] by (cases body) (simp_all add: request_lines_def)
  have "\<exists>evs'. read_until_end_of_headers utf8 evs = (Ready (Ok (socket_data evs, is_websocket_upgrade utf8 (socket_data evs))), evs')"
    using assms(8,10,11) cl by (intro read_request [OF ne plain]) (simp_all add: req MAX_HEADER_BYTES_def HEADER_END_def CRLF_def)
  moreover have "parse_request_parts utf8 (as_bytes req) = (m, path, ?b)"
  proof -
    obtain ls where ls: "?ls = ?l1 # ls" by (simp add: request_lines_def)
    have "str_lines req = ?l1 # ls @ [] # str_lines ?b"
      using str_lines_header_end [OF ne plain, of ?b] ls by (simp add: req)
    moreover have "find_sub HEADER_END req = Some (length (header_text ?ls))" unfolding req by (rule find_header_end [OF ne plain])
    moreover have "drop (length (header_text ?ls) + 4) req = ?b" by (simp add: req HEADER_END_def CRLF_def)
    moreover have "split_once (CHR '' '') ?l1 = Some (m, path @ '' HTTP/1.1'')"
      "split_once (CHR '' '') (path @ '' HTTP/1.1'') = Some (path, ''HTTP/1.1'')"
      using assms(5) split_once_append [of "CHR '' ''"] by auto
    ultimately show ?thesis unfolding parse_request_parts_def t(1) by simp
  qed
  moreover have "parse_host_header utf8 (as_bytes req) = Some host"
  proof -
    have "find_header_terminator (as_bytes req) = Some (length (header_text ?ls))"
      unfolding find_terminator_text req by (rule find_header_end [OF ne plain])
    moreover have "take (length (header_text ?ls)) (as_bytes req) = as_bytes (header_text ?ls)" by (simp add: req as_bytes_def)
    moreover have "find_map (\<lambda>line. case header_field ''host'' line of None \<Rightarrow> None
        | Some authority \<Rightarrow> if authority = [] then None else Some authority) ?ls = Some host"
      using l1 [of "''host''", THEN conjunct1] assms(3,4) by (simp add: request_lines_def plain_line_def)
    ultimately show ?thesis using u(2) str_lines_header_only [OF ne plain] by (simp add: parse_host_header_def)
  qed
  ultimately show ?thesis using ws assms(11) by simp
qed

lemma status_line_ok:
  "contains_str '' 200 '' (''HTTP/1.1 '' @ show_nat (status_code status) @ '' '' @ canonical_reason status) \<longleftrightarrow>
    status = OK"
  by (cases status; hypsubst; code_simp)

lemma str_split_header:
  assumes "ls \<noteq> []" "\<forall>l \<in> set ls. plain_line l"
  shows "str_split_once HEADER_END (header_text ls @ HEADER_END @ b) = Some (header_text ls, b)"
  using find_header_end [OF assms, of b] by (simp add: str_split_once_def)

text \<open>
  What the client takes out of the listener's response is the body, trimmed, exactly when the
  status is 200; for every other status it fails with the status line.
\<close>

lemma http_response_read:
  assumes "utf8 (as_bytes (rest_response (status, body)))"
  shows "extract_http_json_body utf8 (as_bytes (rest_response (status, body))) =
    (if status = OK then Ok (trim body)
     else Err (RequestFailed (''HTTP/1.1 '' @ show_nat (status_code status) @ '' '' @ canonical_reason status)))"
proof -
  let ?l1 = "''HTTP/1.1 '' @ show_nat (status_code status) @ '' '' @ canonical_reason status"
  let ?ls = "[?l1, ''content-type: application/json'', ''content-length: '' @ show_nat (length body), ''connection: close'']"
  have r: "rest_response (status, body) = header_text ?ls @ HEADER_END @ body" by (simp add: rest_response_def)
  have "CHR 0x0A \<notin> set (show_nat n)" "CHR 0x0D \<notin> set (show_nat n)" for n
    using show_nat_digits [of n] by (auto simp: is_digit_def)
  then have plain: "\<forall>l \<in> set ?ls. plain_line l" by (cases status) (auto simp: plain_line_def)
  have "str_split_once HEADER_END (rest_response (status, body)) = Some (header_text ?ls, body)"
    unfolding r by (rule str_split_header [OF _ plain]) simp
  moreover have "str_lines (header_text ?ls) = ?ls" by (rule str_lines_header_only [OF _ plain]) simp
  moreover have "contains_str '' 200 '' ?l1 \<longleftrightarrow> status = OK" by (rule status_line_ok)
  ultimately show ?thesis using assms by (simp add: extract_http_json_body_def)
qed

end
