(* ===== verification/Config.thy ===== *)
theory Config
  imports Auth
begin

text \<open>
  Configuration and start-up files: \<^verbatim>\<open>bonded-core/src/config.rs\<close>, the overrides and state files of
  \<^verbatim>\<open>bonded-server/src/main.rs\<close>, and the payload of the pairing code (\<^verbatim>\<open>pairing_qr.rs\<close>).  Reading TOML is
  the parameter \<open>toml\<close>; a directory tree is \<open>file_system\<close>: the texts of its files and what can be
  written.
\<close>

subsection \<open>Sections\<close>

definition DEFAULT_AUTHORIZED_KEYS_PATH :: string where "DEFAULT_AUTHORIZED_KEYS_PATH = ''/var/lib/bonded/authorized_keys.toml''"
definition DEFAULT_INVITE_TOKENS_PATH :: string where "DEFAULT_INVITE_TOKENS_PATH = ''/var/lib/bonded/invite_tokens.toml''"
definition DEFAULT_SERVER_IDENTITY_KEY_PATH :: string where "DEFAULT_SERVER_IDENTITY_KEY_PATH = ''/var/lib/bonded/server-identity.pem''"
definition DEFAULT_WIREGUARD_PEER_LEASE_SECS :: u64 where "DEFAULT_WIREGUARD_PEER_LEASE_SECS = 30 * 24 * 60 * 60"
definition DEFAULT_CLIENT_PRIVATE_KEY_PATH :: string where "DEFAULT_CLIENT_PRIVATE_KEY_PATH = ''~/.local/share/bonded/device-key.pem''"
definition DEFAULT_CLIENT_PUBLIC_KEY_PATH :: string where "DEFAULT_CLIENT_PUBLIC_KEY_PATH = ''~/.local/share/bonded/device-key.pub''"

record ServerSection =
  ss_hostname :: string
  ss_https_bind :: string
  ss_https_public :: u16
  ss_tls_cert_file :: string
  ss_tls_key_file :: string
  ss_wireguard_bind :: "string option"
  ss_wireguard_public :: "u16 option"
  ss_wireguard_key_file :: "string option"
  ss_wireguard_peers_file :: "string option"
  ss_wireguard_peer_lease_secs :: u64
  ss_tcp_bind :: "string option"
  ss_tcp_public :: "u16 option"
  ss_status_bind :: string
  ss_health_bind :: string
  ss_log_level :: string
  ss_forwarding_mode :: string
  ss_tun_name :: string
  ss_tun_cidr :: string
  ss_tun_mtu :: u16
  ss_tun_egress_interface :: string
  ss_authorized_keys_file :: string
  ss_invite_tokens_file :: string
  ss_identity_key_file :: string
  ss_acme_domain :: "string option"
  ss_acme_email :: "string option"
  ss_acme_staging :: bool

definition server_section_default :: ServerSection where
  "server_section_default =
    \<lparr> ss_hostname = [],
      ss_https_bind = ''0.0.0.0:443'',
      ss_https_public = 443,
      ss_tls_cert_file = [],
      ss_tls_key_file = [],
      ss_wireguard_bind = None,
      ss_wireguard_public = None,
      ss_wireguard_key_file = None,
      ss_wireguard_peers_file = None,
      ss_wireguard_peer_lease_secs = DEFAULT_WIREGUARD_PEER_LEASE_SECS,
      ss_tcp_bind = None,
      ss_tcp_public = None,
      ss_status_bind = ''0.0.0.0:8082'',
      ss_health_bind = ''0.0.0.0:8081'',
      ss_log_level = ''info'',
      ss_forwarding_mode = ''proxy'',
      ss_tun_name = ''bonded0'',
      ss_tun_cidr = ''100.64.0.1/24'',
      ss_tun_mtu = 1420,
      ss_tun_egress_interface = [],
      ss_authorized_keys_file = DEFAULT_AUTHORIZED_KEYS_PATH,
      ss_invite_tokens_file = DEFAULT_INVITE_TOKENS_PATH,
      ss_identity_key_file = DEFAULT_SERVER_IDENTITY_KEY_PATH,
      ss_acme_domain = None,
      ss_acme_email = None,
      ss_acme_staging = False \<rparr>"

definition https_public_addr :: "ServerSection \<Rightarrow> string" where
  "https_public_addr s = ss_hostname s @ '':'' @ show_nat (unat (ss_https_public s))"

definition wireguard_public_addr :: "ServerSection \<Rightarrow> string option" where
  "wireguard_public_addr s =
     map_option (\<lambda>port. ss_hostname s @ '':'' @ show_nat (unat port)) (ss_wireguard_public s)"

record ClientSection =
  cs_device_name :: string
  cs_tun_name :: string
  cs_server_public_address :: string
  cs_server_resolved_address :: string
  cs_server_websocket_address :: string
  cs_path_bind_addresses :: "string list"
  cs_server_public_key :: string
  cs_invite_token :: string
  cs_preferred_protocols :: "string list"
  cs_allow_insecure_debug_transports :: bool
  cs_private_key_path :: string
  cs_public_key_path :: string
  cs_tls_cert_fingerprint :: string
  cs_wireguard_server_public_key :: string
  cs_peer_share_enabled :: bool
  cs_peer_share_bind_address :: string
  cs_peer_share_advertise_ip :: string

definition client_section_default :: ClientSection where
  "client_section_default =
    \<lparr> cs_device_name = ''linux-cli'',
      cs_tun_name = ''bonded0'',
      cs_server_public_address = [],
      cs_server_resolved_address = [],
      cs_server_websocket_address = [],
      cs_path_bind_addresses = [],
      cs_server_public_key = [],
      cs_invite_token = [],
      cs_preferred_protocols = [''wss'', ''h3'', ''wireguard''],
      cs_allow_insecure_debug_transports = False,
      cs_private_key_path = DEFAULT_CLIENT_PRIVATE_KEY_PATH,
      cs_public_key_path = DEFAULT_CLIENT_PUBLIC_KEY_PATH,
      cs_tls_cert_fingerprint = [],
      cs_wireguard_server_public_key = [],
      cs_peer_share_enabled = False,
      cs_peer_share_bind_address = ''0.0.0.0:54443'',
      cs_peer_share_advertise_ip = [] \<rparr>"

datatype ConfigError = ConfigIo | ConfigToml

definition load_server_config :: "(string \<Rightarrow> 'c option) \<Rightarrow> string file_state \<Rightarrow> (ConfigError, 'c) res" where
  "load_server_config toml f =
     (case f of Content data \<Rightarrow> ok_or ConfigToml (toml data) | _ \<Rightarrow> Err ConfigIo)"

definition startup_config :: "(string \<Rightarrow> ServerSection option) \<Rightarrow> string file_state \<Rightarrow> ServerSection" where
  "startup_config toml f = (case load_server_config toml f of Inl e \<Rightarrow> server_section_default | Inr c \<Rightarrow> c)"

subsection \<open>Overrides from the environment\<close>

definition env_override ::
  "(string \<rightharpoonup> string) \<Rightarrow> string \<Rightarrow> (string \<Rightarrow> ServerSection \<Rightarrow> ServerSection) \<Rightarrow> ServerSection \<Rightarrow> ServerSection" where
  "env_override read_env key upd c = (case read_env key of None \<Rightarrow> c | Some v \<Rightarrow> upd v c)"

definition parsed_override ::
  "nat \<Rightarrow> ('a::len word \<Rightarrow> ServerSection \<Rightarrow> ServerSection) \<Rightarrow> string \<Rightarrow> ServerSection \<Rightarrow> ServerSection" where
  "parsed_override maxval upd v c = (case parse_uint maxval v of None \<Rightarrow> c | Some n \<Rightarrow> upd (of_nat n) c)"

definition apply_env_overrides :: "(string \<rightharpoonup> string) \<Rightarrow> ServerSection \<Rightarrow> ServerSection" where
  "apply_env_overrides read_env cfg =
    (let cfg = env_override read_env ''BONDED_HOSTNAME'' (\<lambda>v c. c\<lparr> ss_hostname := v \<rparr>) cfg;
         cfg = env_override read_env ''BONDED_HTTPS_BIND'' (\<lambda>v c. c\<lparr> ss_https_bind := v \<rparr>) cfg;
         cfg = env_override read_env ''BONDED_HTTPS_PUBLIC'' (parsed_override 65535 (\<lambda>n c. c\<lparr> ss_https_public := n \<rparr>)) cfg;
         cfg = env_override read_env ''BONDED_TLS_CERT_FILE'' (\<lambda>v c. c\<lparr> ss_tls_cert_file := v \<rparr>) cfg;
         cfg = env_override read_env ''BONDED_TLS_KEY_FILE'' (\<lambda>v c. c\<lparr> ss_tls_key_file := v \<rparr>) cfg;
         cfg = env_override read_env ''BONDED_WIREGUARD_BIND'' (\<lambda>v c. c\<lparr> ss_wireguard_bind := Some v \<rparr>) cfg;
         cfg = env_override read_env ''BONDED_WIREGUARD_PUBLIC'' (parsed_override 65535 (\<lambda>n c. c\<lparr> ss_wireguard_public := Some n \<rparr>)) cfg;
         cfg = env_override read_env ''BONDED_WIREGUARD_KEY_FILE'' (\<lambda>v c. c\<lparr> ss_wireguard_key_file := Some v \<rparr>) cfg;
         cfg = env_override read_env ''BONDED_WIREGUARD_PEERS_FILE'' (\<lambda>v c. c\<lparr> ss_wireguard_peers_file := Some v \<rparr>) cfg;
         cfg = env_override read_env ''BONDED_WIREGUARD_PEER_LEASE_SECS''
                 (parsed_override (2 ^ 64 - 1) (\<lambda>n c. c\<lparr> ss_wireguard_peer_lease_secs := n \<rparr>)) cfg;
         cfg = env_override read_env ''BONDED_TCP_BIND'' (\<lambda>v c. c\<lparr> ss_tcp_bind := Some v \<rparr>) cfg;
         cfg = env_override read_env ''BONDED_TCP_PUBLIC'' (parsed_override 65535 (\<lambda>n c. c\<lparr> ss_tcp_public := Some n \<rparr>)) cfg;
         cfg = env_override read_env ''BONDED_STATUS_BIND'' (\<lambda>v c. c\<lparr> ss_status_bind := v \<rparr>) cfg;
         cfg = env_override read_env ''BONDED_HEALTH_BIND'' (\<lambda>v c. c\<lparr> ss_health_bind := v \<rparr>) cfg;
         cfg = env_override read_env ''BONDED_LOG_LEVEL'' (\<lambda>v c. c\<lparr> ss_log_level := v \<rparr>) cfg;
         cfg = env_override read_env ''BONDED_FORWARDING_MODE'' (\<lambda>v c. c\<lparr> ss_forwarding_mode := v \<rparr>) cfg;
         cfg = env_override read_env ''BONDED_TUN_NAME'' (\<lambda>v c. c\<lparr> ss_tun_name := v \<rparr>) cfg;
         cfg = env_override read_env ''BONDED_TUN_CIDR'' (\<lambda>v c. c\<lparr> ss_tun_cidr := v \<rparr>) cfg;
         cfg = env_override read_env ''BONDED_TUN_MTU'' (parsed_override 65535 (\<lambda>n c. c\<lparr> ss_tun_mtu := n \<rparr>)) cfg;
         cfg = env_override read_env ''BONDED_TUN_EGRESS_INTERFACE'' (\<lambda>v c. c\<lparr> ss_tun_egress_interface := v \<rparr>) cfg;
         cfg = env_override read_env ''BONDED_AUTHORIZED_KEYS_FILE'' (\<lambda>v c. c\<lparr> ss_authorized_keys_file := v \<rparr>) cfg;
         cfg = env_override read_env ''BONDED_INVITE_TOKENS_FILE'' (\<lambda>v c. c\<lparr> ss_invite_tokens_file := v \<rparr>) cfg
     in cfg)"

subsection \<open>State files\<close>

record file_system =
  fs_files :: "(string, string) hmap"
  fs_dir_ok :: "string \<Rightarrow> bool"
  fs_write_ok :: "string \<Rightarrow> bool"

text \<open>\<open>Path::parent\<close> is the text before the last slash; creating it for a path without one creates nothing.\<close>

definition path_parent :: "string \<Rightarrow> string" where
  "path_parent path = (case rsplit_once (CHR ''/'') path of None \<Rightarrow> [] | Some (dir, _) \<Rightarrow> dir)"

definition create_parent :: "string \<Rightarrow> file_system \<Rightarrow> (IoError, unit) res" where
  "create_parent path fs = (if path_parent path = [] \<or> fs_dir_ok fs (path_parent path) then Ok () else Err WriteFailed)"

definition fs_exists :: "string \<Rightarrow> file_system \<Rightarrow> bool" where
  "fs_exists path fs \<longleftrightarrow> map_of (fs_files fs) path \<noteq> None"

definition fs_write :: "string \<Rightarrow> string \<Rightarrow> file_system \<Rightarrow> file_system \<times> (IoError, unit) res" where
  "fs_write path s fs =
     (if fs_write_ok fs path then (fs\<lparr> fs_files := hm_insert path s (fs_files fs) \<rparr>, Ok ()) else (fs, Err WriteFailed))"

definition ensure_state_file :: "string \<Rightarrow> string \<Rightarrow> file_system \<Rightarrow> file_system \<times> (IoError, unit) res" where
  "ensure_state_file path default_contents fs =
     (case create_parent path fs of
        Inl e \<Rightarrow> (fs, Err e)
      | Inr _ \<Rightarrow> if fs_exists path fs then (fs, Ok ()) else fs_write path default_contents fs)"

definition then_fs ::
  "file_system \<times> (IoError, unit) res \<Rightarrow> (file_system \<Rightarrow> file_system \<times> (IoError, unit) res)
   \<Rightarrow> file_system \<times> (IoError, unit) res" where
  "then_fs p k = (case p of (fs, Inl e) \<Rightarrow> (fs, Err e) | (fs, Inr _) \<Rightarrow> k fs)"

definition NO_DEVICES :: string where "NO_DEVICES = ''devices = []'' @ [CHR 0x0A]"
definition NO_TOKENS :: string where "NO_TOKENS = ''tokens = []'' @ [CHR 0x0A]"
definition NO_PEERS :: string where "NO_PEERS = ''peers = []'' @ [CHR 0x0A]"

definition ensure_server_state_files :: "ServerSection \<Rightarrow> file_system \<Rightarrow> file_system \<times> (IoError, unit) res" where
  "ensure_server_state_files cfg fs =
     then_fs (ensure_state_file (ss_authorized_keys_file cfg) NO_DEVICES fs) (\<lambda>fs.
     then_fs (ensure_state_file (ss_invite_tokens_file cfg) NO_TOKENS fs) (\<lambda>fs.
       case ss_wireguard_peers_file cfg of
         None \<Rightarrow> (fs, Ok ())
       | Some path \<Rightarrow> ensure_state_file path NO_PEERS fs))"

text \<open>The certificate and key are made by a crate: \<open>made\<close> is its result for a subject name.\<close>

datatype CertError = CertGeneration | CertIo IoError

definition ensure_self_signed_cert ::
  "(string \<Rightarrow> (string \<times> string) option) \<Rightarrow> string \<Rightarrow> string \<Rightarrow> string \<Rightarrow> file_system
   \<Rightarrow> file_system \<times> (CertError, unit) res" where
  "ensure_self_signed_cert made cert_file key_file hostname fs =
     (if fs_exists cert_file fs \<and> fs_exists key_file fs then (fs, Ok ())
      else case made (if hostname = [] then ''localhost'' else hostname) of
             None \<Rightarrow> (fs, Err CertGeneration)
           | Some (cert, key) \<Rightarrow>
               (case res_bind (create_parent cert_file fs) (\<lambda>_. create_parent key_file fs) of
                  Inl e \<Rightarrow> (fs, Err (CertIo e))
                | Inr _ \<Rightarrow>
                    (case then_fs (fs_write cert_file cert fs) (fs_write key_file key) of
                       (fs, Inl e) \<Rightarrow> (fs, Err (CertIo e))
                     | (fs, Inr _) \<Rightarrow> (fs, Ok ()))))"

subsection \<open>Pairing\<close>

record PairingPayload =
  pp_server_public_address :: string
  pp_invite_token :: string
  pp_server_public_key :: string

definition pairing_json :: "PairingPayload \<Rightarrow> json" where
  "pairing_json p =
     JObj [(''server_public_address'', JStr (pp_server_public_address p)), (''invite_token'', JStr (pp_invite_token p)),
           (''server_public_key'', JStr (pp_server_public_key p))]"

definition decode_pairing :: "json \<Rightarrow> PairingPayload option" where
  "decode_pairing v =
     (case serde_fields [''server_public_address'', ''invite_token'', ''server_public_key''] v of
        Some [a, t, k] \<Rightarrow>
          (case (str_field a, str_field t, str_field k) of
             (Some a, Some t, Some k) \<Rightarrow>
               Some \<lparr> pp_server_public_address = a, pp_invite_token = t, pp_server_public_key = k \<rparr>
           | _ \<Rightarrow> None)
      | _ \<Rightarrow> None)"

definition build_pairing_payload_json :: "json_codec \<Rightarrow> string \<Rightarrow> InviteToken \<Rightarrow> string \<Rightarrow> string option" where
  "build_pairing_payload_json js public_address invite server_public_key =
     (if trim public_address = [] then None
      else Some (json_print js (pairing_json
             \<lparr> pp_server_public_address = public_address, pp_invite_token = it_token invite,
               pp_server_public_key = server_public_key \<rparr>)))"

text \<open>\<open>qr\<close> tells whether the payload fits in a QR code.\<close>

definition emit_pairing_qr :: "(string \<Rightarrow> bool) \<Rightarrow> json_codec \<Rightarrow> string \<Rightarrow> InviteToken \<Rightarrow> string \<Rightarrow> string option" where
  "emit_pairing_qr qr js public_address invite server_public_key =
     (case build_pairing_payload_json js public_address invite server_public_key of
        None \<Rightarrow> None
      | Some payload_json \<Rightarrow> if qr payload_json then Some payload_json else None)"

subsection \<open>Properties\<close>

lemma decode_pairing_json [simp]: "decode_pairing (pairing_json p) = Some p"
  by (cases p) (simp add: decode_pairing_def pairing_json_def serde_fields_def)

text \<open>
  What the environment can change: an empty environment changes nothing, and no environment
  reaches the identity key and the ACME settings.
\<close>

lemma env_override_frame: "(\<And>v c. f (upd v c) = f c) \<Longrightarrow> f (env_override env key upd c) = f c"
  by (simp add: env_override_def split: option.split)

lemma parsed_override_frame: "(\<And>n c. f (upd n c) = f c) \<Longrightarrow> f (parsed_override m upd v c) = f c"
  by (simp add: parsed_override_def split: option.split)

lemmas override_frames =
  env_override_frame [where f = ss_identity_key_file] parsed_override_frame [where f = ss_identity_key_file]
  env_override_frame [where f = ss_acme_domain] parsed_override_frame [where f = ss_acme_domain]
  env_override_frame [where f = ss_acme_email] parsed_override_frame [where f = ss_acme_email]
  env_override_frame [where f = ss_acme_staging] parsed_override_frame [where f = ss_acme_staging]

lemma env_overrides_frame:
  "apply_env_overrides Map.empty c = c"
  "ss_identity_key_file (apply_env_overrides env c) = ss_identity_key_file c"
  "ss_acme_domain (apply_env_overrides env c) = ss_acme_domain c"
  "ss_acme_email (apply_env_overrides env c) = ss_acme_email c"
  "ss_acme_staging (apply_env_overrides env c) = ss_acme_staging c"
  by (simp add: apply_env_overrides_def Let_def env_override_def)
    (simp_all add: apply_env_overrides_def Let_def override_frames)

lemma trim_start_eq_Nil: "trim_start s = [] \<longleftrightarrow> list_all is_white s"
  by (simp add: trim_start_def list_all_iff dropWhile_eq_Nil_conv)

lemma trim_eq_Nil: "trim s = [] \<longleftrightarrow> list_all is_white s"
proof -
  have "trim s = [] \<longleftrightarrow> list_all is_white (trim_start s)"
    by (simp add: trim_def trim_end_def list_all_iff dropWhile_eq_Nil_conv)
  also have "\<dots> \<longleftrightarrow> list_all is_white s"
    by (cases "trim_start s") (auto simp: trim_start_eq_Nil [symmetric], auto simp: trim_start_def list_all_iff dropWhile_eq_Cons_conv)
  finally show ?thesis .
qed

lemma colon_not_white: "\<not> is_white (CHR '':'')" by code_simp

lemma https_public_addr_nonblank: "trim (https_public_addr c) \<noteq> []"
  using colon_not_white by (simp add: trim_eq_Nil https_public_addr_def)

text \<open>
  The pairing payload always carries the advertised address, the invite and the server's key
  unchanged, and it is emitted for every configuration: the check for a missing address never
  applies, because the address of a server without a host name is still a colon and a port.
\<close>

theorem pairing_always_emitted:
  assumes "json_ok js"
    and "\<forall>p. qr p"
  shows "\<exists>payload. emit_pairing_qr qr js (https_public_addr c) invite key = Some payload \<and>
    Option.bind (json_parse js payload) decode_pairing =
      Some \<lparr> pp_server_public_address = ss_hostname c @ '':'' @ show_nat (unat (ss_https_public c)),
             pp_invite_token = it_token invite, pp_server_public_key = key \<rparr>"
  using assms(2) https_public_addr_nonblank [of c] json_okD(4) [OF assms(1)]
  by (simp add: emit_pairing_qr_def build_pairing_payload_json_def) (simp add: https_public_addr_def)

theorem pairing_always_emitted_witness:
  "\<exists>payload. emit_pairing_qr (\<lambda>_. True) numbering_codec (https_public_addr server_section_default)
       \<lparr> it_token = ''t'', it_expires_at = [], uses_remaining = 1 \<rparr> ''k'' = Some payload \<and>
     Option.bind (json_parse numbering_codec payload) decode_pairing =
       Some \<lparr> pp_server_public_address = '':443'', pp_invite_token = ''t'', pp_server_public_key = ''k'' \<rparr>"
proof -
  have "show_nat (unat (443 :: u16)) = ''443''" by code_simp
  then show ?thesis
    using pairing_always_emitted [OF numbering_codec_ok, of "\<lambda>_. True" server_section_default
        "\<lparr> it_token = ''t'', it_expires_at = [], uses_remaining = 1 \<rparr>" "''k''"]
    by (simp add: server_section_default_def)
qed

subsection \<open>State files\<close>

definition fs_keeps :: "file_system \<Rightarrow> file_system \<Rightarrow> bool" where
  "fs_keeps fs fs' \<longleftrightarrow> (\<forall>p v. map_of (fs_files fs) p = Some v \<longrightarrow> map_of (fs_files fs') p = Some v)"

lemma fs_keeps_refl [simp]: "fs_keeps fs fs" by (simp add: fs_keeps_def)

lemma fs_keeps_trans: "fs_keeps a b \<Longrightarrow> fs_keeps b c \<Longrightarrow> fs_keeps a c" by (simp add: fs_keeps_def)

lemma fs_keeps_exists: "fs_keeps a b \<Longrightarrow> fs_exists p a \<Longrightarrow> fs_exists p b" by (auto simp: fs_keeps_def fs_exists_def)

lemma ensure_state_file_keeps:
  assumes "ensure_state_file path dflt fs = (fs', r)"
  shows "fs_keeps fs fs' \<and> (r = Ok () \<longrightarrow> fs_exists path fs')"
  using assms
  by (auto simp: ensure_state_file_def fs_write_def fs_keeps_def fs_exists_def split: sum.splits if_splits)

lemma ensure_state_file_again:
  assumes "ensure_state_file path dflt fs = (fs1, Ok ())" "fs_keeps fs1 fs'" "fs_dir_ok fs' = fs_dir_ok fs"
  shows "ensure_state_file path dflt fs' = (fs', Ok ())"
  using assms fs_keeps_exists [OF assms(2), of path] ensure_state_file_keeps [OF assms(1)]
  by (auto simp: ensure_state_file_def create_parent_def split: if_splits)

lemma ensure_state_file_dirs: "ensure_state_file path dflt fs = (fs', r) \<Longrightarrow> fs_dir_ok fs' = fs_dir_ok fs"
  by (auto simp: ensure_state_file_def fs_write_def split: sum.splits if_splits)

text \<open>Start-up never changes a state file that is there; when it succeeds they all are, and it can be repeated.\<close>

lemma state_files_kept:
  assumes "ensure_server_state_files cfg fs = (fs', r)"
  shows "fs_keeps fs fs'"
    and "r = Ok () \<Longrightarrow> ensure_server_state_files cfg fs' = (fs', Ok ())"
proof -
  obtain f1 r1 where 1: "ensure_state_file (ss_authorized_keys_file cfg) NO_DEVICES fs = (f1, r1)" by fastforce
  obtain f2 r2 where 2: "ensure_state_file (ss_invite_tokens_file cfg) NO_TOKENS f1 = (f2, r2)" by fastforce
  note k1 = ensure_state_file_keeps [OF 1, THEN conjunct1] and k2 = ensure_state_file_keeps [OF 2, THEN conjunct1]
  note d1 = ensure_state_file_dirs [OF 1] and d2 = ensure_state_file_dirs [OF 2]
  have split: "(fs', r) = (case r1 of Inl e \<Rightarrow> (f1, Err e) | Inr _ \<Rightarrow> (case r2 of Inl e \<Rightarrow> (f2, Err e) | Inr _ \<Rightarrow>
      (case ss_wireguard_peers_file cfg of None \<Rightarrow> (f2, Ok ()) | Some path \<Rightarrow> ensure_state_file path NO_PEERS f2)))"
    using assms 1 2 by (simp add: ensure_server_state_files_def then_fs_def split: sum.splits)
  have k: "fs_keeps f2 fs' \<and> fs_dir_ok fs' = fs_dir_ok f2" if "r1 = Ok ()" "r2 = Ok ()"
  proof (cases "ss_wireguard_peers_file cfg")
    case None
    with that split show ?thesis by simp
  next
    case (Some path)
    with that split have "ensure_state_file path NO_PEERS f2 = (fs', r)" by simp
    then show ?thesis using ensure_state_file_keeps ensure_state_file_dirs by blast
  qed
  show "fs_keeps fs fs'"
  proof (cases "r1 = Ok () \<and> r2 = Ok ()")
    case True
    with k k1 k2 show ?thesis by (blast intro: fs_keeps_trans)
  next
    case False
    then show ?thesis using split k1 fs_keeps_trans [OF k1 k2] by (auto split: sum.splits)
  qed
  assume r: "r = Ok ()"
  then have rr: "r1 = Ok ()" "r2 = Ok ()" using split by (auto split: sum.splits)
  note kk = k [OF rr]
  have "ensure_state_file (ss_authorized_keys_file cfg) NO_DEVICES fs' = (fs', Ok ())"
    by (rule ensure_state_file_again [of _ _ fs f1]) (use 1 rr kk fs_keeps_trans [OF k2] d1 d2 in auto)
  moreover have "ensure_state_file (ss_invite_tokens_file cfg) NO_TOKENS fs' = (fs', Ok ())"
    by (rule ensure_state_file_again [of _ _ f1 f2]) (use 2 rr kk d2 in auto)
  moreover have "ensure_state_file path NO_PEERS fs' = (fs', Ok ())" if "ss_wireguard_peers_file cfg = Some path" for path
    using that split rr r ensure_state_file_again [of path NO_PEERS f2 fs' fs'] kk by simp
  ultimately show "ensure_server_state_files cfg fs' = (fs', Ok ())"
    by (simp add: ensure_server_state_files_def then_fs_def split: option.split)
qed



end
