(* ===== verification/Bootstrap.thy ===== *)
theory Bootstrap
  imports Http PeerShare WgPeers
begin

text \<open>
  The bootstrap service of the server (\<^verbatim>\<open>bootstrap.rs\<close> and the HTTP/3 side of \<^verbatim>\<open>quic.rs\<close>): its
  context, the REST endpoints and their routing, and the serving of one connection.  UTF-8, the
  signature scheme, JSON text, URI authorities and SHA-256 are the parameters \<open>web_env\<close>; the clock is
  the argument \<open>now\<close>.
\<close>

subsection \<open>Context\<close>

record web_env =
  we_utf8 :: "bytes \<Rightarrow> bool"
  we_crypto :: crypto
  we_json :: json_codec
  we_authority :: "string \<Rightarrow> (string \<times> u16 option) option"
  we_sha256 :: "bytes \<Rightarrow> bytes"

record WireGuardKeypair =
  wk_secret :: bytes
  wk_public :: bytes

definition wg_public_key_b64 :: "crypto \<Rightarrow> WireGuardKeypair \<Rightarrow> string" where
  "wg_public_key_b64 cr kp = std_encode cr (wk_public kp)"

record BootstrapContext =
  bc_server_identity :: DeviceKeypair
  bc_tls_cert_der :: "bytes option"
  bc_server_public_address :: string
  bc_wireguard_keypair :: "WireGuardKeypair option"
  bc_wireguard_peers :: "WireGuardPeerRegistry option"
  bc_wireguard_public_addr :: "string option"
  bc_wireguard_peer_lease_secs :: u64
  bc_authorized_keys :: AuthorizedKeysStore

record AdvertisedBootstrapEndpoints =
  ae_server_public_address :: string
  ae_wireguard_public_addr :: "string option"

definition quic_enabled :: "BootstrapContext \<Rightarrow> bool" where
  "quic_enabled ctx \<longleftrightarrow> bc_tls_cert_der ctx \<noteq> None"

definition wireguard_enabled :: "BootstrapContext \<Rightarrow> bool" where
  "wireguard_enabled ctx \<longleftrightarrow> bc_wireguard_keypair ctx \<noteq> None"

definition hex_digit :: "nat \<Rightarrow> char" where
  "hex_digit n = (if n < 10 then char_of (48 + n) else char_of (87 + n))"

definition hex_byte :: "byte \<Rightarrow> string" where
  "hex_byte b = [hex_digit (unat b div 16), hex_digit (unat b mod 16)]"

definition fingerprint_of :: "(bytes \<Rightarrow> bytes) \<Rightarrow> bytes \<Rightarrow> string" where
  "fingerprint_of sha256 der = ''sha256:'' @ concat (map hex_byte (sha256 der))"

definition cert_proof :: "web_env \<Rightarrow> BootstrapContext \<Rightarrow> (AuthError, string \<times> string) res option" where
  "cert_proof env ctx =
     (case bc_tls_cert_der ctx of
        None \<Rightarrow> None
      | Some der \<Rightarrow>
          let fingerprint = fingerprint_of (we_sha256 env) der
          in Some (res_bind (sign_bytes (we_crypto env) (bc_server_identity ctx) (as_bytes fingerprint))
                     (\<lambda>s. Ok (fingerprint, s))))"

subsection \<open>Endpoints\<close>

definition rewrite_endpoint_authority ::
  "(string \<Rightarrow> (string \<times> u16 option) option) \<Rightarrow> string \<Rightarrow> string \<Rightarrow> string" where
  "rewrite_endpoint_authority authority configured_endpoint requested_authority =
     (let requested = authority requested_authority;
          configured = authority configured_endpoint;
          host = (case requested of
                    Some (h, _) \<Rightarrow> if h \<noteq> [] then h else configured_endpoint
                  | None \<Rightarrow> configured_endpoint);
          port = (case Option.bind requested snd of
                    Some p \<Rightarrow> Some p
                  | None \<Rightarrow> Option.bind configured snd)
      in if CHR '':'' \<in> set host \<and> \<not> starts_with ''['' host then
           (case port of
              Some p \<Rightarrow> ''['' @ host @ '']:'' @ show_nat (unat p)
            | None \<Rightarrow> ''['' @ host @ '']'')
         else
           (case port of
              Some p \<Rightarrow> host @ '':'' @ show_nat (unat p)
            | None \<Rightarrow> host))"

definition advertised_endpoints_for_request ::
  "(string \<Rightarrow> (string \<times> u16 option) option) \<Rightarrow> BootstrapContext \<Rightarrow> string option \<Rightarrow> AdvertisedBootstrapEndpoints" where
  "advertised_endpoints_for_request authority ctx requested_authority =
     (case requested_authority of
        Some a \<Rightarrow>
          if trim a \<noteq> [] then
            \<lparr> ae_server_public_address = rewrite_endpoint_authority authority (bc_server_public_address ctx) a,
              ae_wireguard_public_addr =
                map_option (\<lambda>endpoint. rewrite_endpoint_authority authority endpoint a) (bc_wireguard_public_addr ctx) \<rparr>
          else \<lparr> ae_server_public_address = bc_server_public_address ctx,
                 ae_wireguard_public_addr = bc_wireguard_public_addr ctx \<rparr>
      | None \<Rightarrow> \<lparr> ae_server_public_address = bc_server_public_address ctx,
                  ae_wireguard_public_addr = bc_wireguard_public_addr ctx \<rparr>)"

subsection \<open>Responses\<close>

type_synonym response = "StatusCode \<times> string"

definition cert_proof_response :: "web_env \<Rightarrow> BootstrapContext \<Rightarrow> response" where
  \<open>cert_proof_response env ctx =
     (case cert_proof env ctx of
        None \<Rightarrow> (NOT_IMPLEMENTED, ''{"error":"TLS not configured on this server; cert-proof requires TLS"}'')
      | Some (Inl e) \<Rightarrow> (INTERNAL_SERVER_ERROR, ''{"error":"failed to generate cert proof"}'')
      | Some (Inr (fingerprint, signature)) \<Rightarrow>
          (OK, json_print (we_json env)
                 (json_object [(''cert_fingerprint'', JStr fingerprint), (''ed25519_signature'', JStr signature)])))\<close>

definition capabilities_json ::
  "web_env \<Rightarrow> BootstrapContext \<Rightarrow> AdvertisedBootstrapEndpoints option \<Rightarrow> json" where
  "capabilities_json env ctx advertised_endpoints =
     (let endpoints = (case advertised_endpoints of
            Some e \<Rightarrow> e | None \<Rightarrow> advertised_endpoints_for_request (we_authority env) ctx None);
          address = ae_server_public_address endpoints;
          obj = [(''wss'', json_object [(''endpoint'', JStr address)])];
          transports = [''wss''];
          (obj, transports) =
            (if quic_enabled ctx
             then (obj @ [(''h3'', json_object [(''endpoint'', JStr address)])], transports @ [''h3''])
             else (obj, transports));
          (obj, transports) =
            (if wireguard_enabled ctx
             then (obj @ [(''wireguard'', json_object
                     [(''endpoint'', JStr (case ae_wireguard_public_addr endpoints of Some a \<Rightarrow> a | None \<Rightarrow> address)),
                      (''provision_endpoint'', JStr (''https://'' @ address @ ''/v1/bootstrap/wireguard/peer'')),
                      (''server_public_key'',
                        JStr (case bc_wireguard_keypair ctx of Some kp \<Rightarrow> wg_public_key_b64 (we_crypto env) kp | None \<Rightarrow> [])),
                      (''peer_lease_seconds'', JNum (uint (bc_wireguard_peer_lease_secs ctx)))])],
                   transports @ [''wireguard''])
             else (obj, transports))
      in json_object (obj @ [(''transports'', JArr (map JStr transports))]))"

definition capabilities_response ::
  "web_env \<Rightarrow> BootstrapContext \<Rightarrow> AdvertisedBootstrapEndpoints option \<Rightarrow> response" where
  "capabilities_response env ctx advertised_endpoints =
     (OK, json_print (we_json env) (capabilities_json env ctx advertised_endpoints))"

definition wireguard_peer_response ::
  "web_env \<Rightarrow> u64 \<Rightarrow> BootstrapContext \<Rightarrow> string \<Rightarrow> (BootstrapContext \<times> response) exec" where
  \<open>wireguard_peer_response env now ctx body =
     (case (bc_wireguard_keypair ctx, bc_wireguard_peers ctx) of
        (Some kp, Some peers) \<Rightarrow>
          (case json_parse (we_json env) (trim body) of
             None \<Rightarrow> Return (ctx, (BAD_REQUEST, ''{"error":"invalid JSON body"}''))
           | Some req \<Rightarrow>
               let device_pk = (case get_str ''device_public_key'' req of None \<Rightarrow> [] | Some s \<Rightarrow> s);
                   wg_pk = (case get_str ''wg_public_key'' req of None \<Rightarrow> [] | Some s \<Rightarrow> s)
               in if device_pk = [] \<or> wg_pk = []
                  then Return (ctx, (BAD_REQUEST, ''{"error":"device_public_key and wg_public_key are required"}''))
                  else (case register_peer_lease now device_pk wg_pk peers of
                         Panic \<Rightarrow> Panic
                       | Return (peers, peer) \<Rightarrow>
                           Return (ctx\<lparr> bc_wireguard_peers := Some peers \<rparr>,
                             (OK, json_print (we_json env) (json_object
                               [(''server_wg_public_key'', JStr (wg_public_key_b64 (we_crypto env) kp)),
                                (''peer_ip'', JStr (rp_peer_ip peer)),
                                (''lease_expires_at'', JNum (uint (rp_lease_expires_at peer)))])))))
      | _ \<Rightarrow> Return (ctx, (NOT_IMPLEMENTED, ''{"error":"WireGuard is not enabled on this server"}'')))\<close>

definition introduction_claims :: "u64 \<Rightarrow> PeerShareIntroductionRequest \<Rightarrow> PeerShareIntroductionClaims" where
  "introduction_claims now request =
     \<lparr> cl_consumer_device_public_key = rq_consumer_device_public_key request,
       cl_provider_device_public_key = rq_provider_device_public_key request,
       cl_provider_instance_nonce = rq_provider_instance_nonce request,
       cl_provider_endpoint = rq_provider_endpoint request,
       cl_listener_transport = rq_listener_transport request,
       cl_listener_cert_fingerprint = rq_listener_cert_fingerprint request,
       cl_expires_at = saturating_add now 300 \<rparr>"

definition request_incomplete :: "PeerShareIntroductionRequest \<Rightarrow> bool" where
  "request_incomplete request \<longleftrightarrow>
     rq_consumer_device_public_key request = [] \<or> rq_provider_device_public_key request = [] \<or>
     rq_provider_instance_nonce request = [] \<or> rq_provider_endpoint request = [] \<or>
     rq_listener_transport request = [] \<or> rq_listener_cert_fingerprint request = [] \<or>
     rq_consumer_signature request = []"

definition peer_share_introduction_response :: "web_env \<Rightarrow> u64 \<Rightarrow> BootstrapContext \<Rightarrow> string \<Rightarrow> response" where
  \<open>peer_share_introduction_response env now ctx body =
     (case Option.bind (json_parse (we_json env) (trim body)) decode_request of
        None \<Rightarrow> (BAD_REQUEST, ''{"error":"invalid JSON body"}'')
      | Some request \<Rightarrow>
          if request_incomplete request then
            (BAD_REQUEST, ''{"error":"consumer_device_public_key, provider_device_public_key, provider_instance_nonce, provider_endpoint, listener_transport, listener_cert_fingerprint, and consumer_signature are required"}'')
          else if \<not> is_authorized (bc_authorized_keys ctx) (rq_consumer_device_public_key request) \<or>
                  \<not> is_authorized (bc_authorized_keys ctx) (rq_provider_device_public_key request) then
            (FORBIDDEN, ''{"error":"peer introduction requires both devices to be authorized"}'')
          else (case verify_signature (we_crypto env) (rq_consumer_device_public_key request)
                      (signed_payload (we_json env) request) (rq_consumer_signature request) of
                 Inl e \<Rightarrow> (UNAUTHORIZED, ''{"error":"invalid consumer signature"}'')
               | Inr _ \<Rightarrow>
                   let claims = introduction_claims now request
                   in (case sign_bytes (we_crypto env) (bc_server_identity ctx) (signing_payload (we_json env) claims) of
                        Inl e \<Rightarrow> (INTERNAL_SERVER_ERROR, ''{"error":"failed to sign peer introduction"}'')
                      | Inr server_signature \<Rightarrow>
                          (OK, json_print (we_json env) (signed_json
                             \<lparr> si_introduction = claims, si_server_signature = server_signature \<rparr>)))))\<close>

subsection \<open>Routing and connections\<close>

definition route_bootstrap_request ::
  "web_env \<Rightarrow> u64 \<Rightarrow> string \<Rightarrow> string \<Rightarrow> string \<Rightarrow> BootstrapContext \<Rightarrow> AdvertisedBootstrapEndpoints option
   \<Rightarrow> (BootstrapContext \<times> response) exec" where
  \<open>route_bootstrap_request env now m path body ctx advertised_endpoints =
     (let path_no_query = (case split_once (CHR ''?'') path of None \<Rightarrow> path | Some (p, _) \<Rightarrow> p)
      in if path_no_query = ''/v1/bootstrap/cert-proof'' then Return (ctx, cert_proof_response env ctx)
         else if path_no_query = ''/v1/bootstrap/capabilities'' then
           Return (ctx, capabilities_response env ctx advertised_endpoints)
         else if m = ''POST'' \<and> path_no_query = ''/v1/bootstrap/wireguard/peer'' then
           wireguard_peer_response env now ctx body
         else if m = ''POST'' \<and> path_no_query = ''/v1/bootstrap/peer-share/introduction'' then
           Return (ctx, peer_share_introduction_response env now ctx body)
         else Return (ctx, (NOT_FOUND, ''{"error":"not found"}'')))\<close>

datatype bootstrap_conn =
    ConnWaiting
  | ConnFailed HttpError
  | ConnUpgrade PrependedStream
  | ConnAnswered string

definition handle_plain_connection ::
  "web_env \<Rightarrow> u64 \<Rightarrow> BootstrapContext \<Rightarrow> read_event list \<Rightarrow> (BootstrapContext \<times> bootstrap_conn) exec" where
  "handle_plain_connection env now ctx evs =
     (case read_until_end_of_headers (we_utf8 env) evs of
        (Pending, _) \<Rightarrow> Return (ctx, ConnWaiting)
      | (Ready (Inl e), _) \<Rightarrow> Return (ctx, ConnFailed e)
      | (Ready (Inr (request_bytes, is_ws)), evs') \<Rightarrow>
          if is_ws then Return (ctx, ConnUpgrade (prepended_new request_bytes evs'))
          else let (m, path, body) = parse_request_parts (we_utf8 env) request_bytes;
                   advertised_endpoints = advertised_endpoints_for_request (we_authority env) ctx
                     (parse_host_header (we_utf8 env) request_bytes)
               in case route_bootstrap_request env now m path body ctx (Some advertised_endpoints) of
                    Panic \<Rightarrow> Panic
                  | Return (ctx, resp) \<Rightarrow> Return (ctx, ConnAnswered (rest_response resp)))"

text \<open>One request of an HTTP/3 connection: method, path with query, authority and body.\<close>

definition handle_h3_request ::
  "web_env \<Rightarrow> u64 \<Rightarrow> BootstrapContext \<Rightarrow> string \<Rightarrow> string \<Rightarrow> string option \<Rightarrow> bytes
   \<Rightarrow> (BootstrapContext \<times> response) exec" where
  "handle_h3_request env now ctx m path authority body =
     route_bootstrap_request env now m path (text_of (we_utf8 env) body) ctx
       (Some (advertised_endpoints_for_request (we_authority env) ctx authority))"

subsection \<open>One exchange\<close>

text \<open>
  C37.  From the client's request to its reading of the answer: when a request of the client arrives at
  the bootstrap listener in any pieces, the listener routes exactly its method, path, body and
  host, and the client gets the body of the response when the status is 200 and an error with the
  status line otherwise.
\<close>

theorem bootstrap_exchange:
  assumes "plain_line m" "plain_line path" "plain_line host" "trim host = host"
    and "CHR '' '' \<notin> set m \<union> set path" "CHR '':'' \<notin> set m \<union> set path"
    and "req = build_http_request m host path body" "length req < MAX_HEADER_BYTES"
    and "\<forall>s. set s \<subseteq> set req \<longrightarrow> we_utf8 env (as_bytes s)"
    and "only_data evs" "socket_data evs = as_bytes req"
    and "b = (case body of None \<Rightarrow> [] | Some b \<Rightarrow> b)" "\<not> list_ex is_upgrade_line (str_lines b)"
    and "route_bootstrap_request env now m path b ctx
           (Some (advertised_endpoints_for_request (we_authority env) ctx (Some host))) = Return (ctx', (status, answer))"
    and "we_utf8 env (as_bytes (rest_response (status, answer)))"
  shows "\<exists>resp. handle_plain_connection env now ctx evs = Return (ctx', ConnAnswered resp) \<and>
    extract_http_json_body (we_utf8 env) (as_bytes resp) =
      (if status = OK then Ok (trim answer)
       else Err (RequestFailed (''HTTP/1.1 '' @ show_nat (status_code status) @ '' '' @ canonical_reason status)))"
proof -
  obtain evs' where r: "read_until_end_of_headers (we_utf8 env) evs = (Ready (Ok (as_bytes req, False)), evs')"
    and p: "parse_request_parts (we_utf8 env) (as_bytes req) = (m, path, b)"
    and h: "parse_host_header (we_utf8 env) (as_bytes req) = Some host"
    using http_request_received [OF assms(1-11)] assms(13) unfolding assms(12) [symmetric] by auto
  have "handle_plain_connection env now ctx evs = Return (ctx', ConnAnswered (rest_response (status, answer)))"
    by (simp add: handle_plain_connection_def r p h assms(14))
  with http_response_read [of "we_utf8 env", OF assms(15)] show ?thesis by blast
qed

subsection \<open>Introductions\<close>

lemma introduction_issued:
  assumes "peer_share_introduction_response env now ctx body = (OK, answer)"
  obtains request signature where
    "Option.bind (json_parse (we_json env) (trim body)) decode_request = Some request"
    "is_authorized (bc_authorized_keys ctx) (rq_consumer_device_public_key request)"
    "is_authorized (bc_authorized_keys ctx) (rq_provider_device_public_key request)"
    "verify_signature (we_crypto env) (rq_consumer_device_public_key request) (signed_payload (we_json env) request)
       (rq_consumer_signature request) = Ok ()"
    "sign_bytes (we_crypto env) (bc_server_identity ctx)
       (signing_payload (we_json env) (introduction_claims now request)) = Ok signature"
    "answer = json_print (we_json env) (signed_json
       \<lparr> si_introduction = introduction_claims now request, si_server_signature = signature \<rparr>)"
  using assms
  by (auto simp: peer_share_introduction_response_def Let_def split: option.splits if_splits sum.splits)

text \<open>
  C38.  A peer introduction, from the request to the relayed session.  An introduction is issued only to
  a consumer that signed the request, and only between two authorized devices.  Presented to
  the server as a relay registration, it binds the session to that consumer exactly for the
  provider it names and while its 300 seconds last; for any other device it is a mismatch, and
  later it is expired.
\<close>

theorem introduction_relay:
  assumes "crypto_ok (we_crypto env)" "json_ok (we_json env)" "length k = 32"
    and "bc_server_identity ctx = from_signing_key (we_crypto env) k"
    and "peer_share_introduction_response env now ctx body = (OK, answer)"
    and "Option.bind (json_parse (we_json env) (trim body)) decode_request = Some request"
  shows "is_authorized (bc_authorized_keys ctx) (rq_consumer_device_public_key request) \<and>
    is_authorized (bc_authorized_keys ctx) (rq_provider_device_public_key request) \<and>
    verify_signature (we_crypto env) (rq_consumer_device_public_key request) (signed_payload (we_json env) request)
       (rq_consumer_signature request) = Ok () \<and>
    (\<exists>s. Option.bind (json_parse (we_json env) answer) decode_signed = Some s \<and>
      resolve_session_binding (we_crypto env) (we_json env) later
        (Ok (into_control_frame (we_json env) \<lparr> pr_introduction = s \<rparr>)) device (bc_server_identity ctx) =
      (if rq_provider_device_public_key request \<noteq> device then Err ProviderMismatch
       else if saturating_add now 300 \<le> later then Err IntroductionExpired
       else Ok \<lparr> sb_client_public_key = rq_consumer_device_public_key request, sb_initial_frame = None,
                 sb_relayed_via_provider = True \<rparr>))"
proof -
  obtain signature where r:
    "is_authorized (bc_authorized_keys ctx) (rq_consumer_device_public_key request)"
    "is_authorized (bc_authorized_keys ctx) (rq_provider_device_public_key request)"
    "verify_signature (we_crypto env) (rq_consumer_device_public_key request) (signed_payload (we_json env) request)
       (rq_consumer_signature request) = Ok ()"
    and s: "sign_bytes (we_crypto env) (bc_server_identity ctx)
       (signing_payload (we_json env) (introduction_claims now request)) = Ok signature"
    and a: "answer = json_print (we_json env) (signed_json
       \<lparr> si_introduction = introduction_claims now request, si_server_signature = signature \<rparr>)"
    by (rule introduction_issued [OF assms(5)]) (simp add: assms(6))
  let ?s = "\<lparr> si_introduction = introduction_claims now request, si_server_signature = signature \<rparr>"
  have v: "verify_signature (we_crypto env) (public_key_b64 (bc_server_identity ctx))
      (signing_payload (we_json env) (introduction_claims now request)) signature = Ok ()"
    using honest_sign_bytes [OF assms(1,3)] s unfolding assms(4) by auto
  have "h_flags (f_header (into_control_frame (we_json env) \<lparr> pr_introduction = ?s \<rparr>)) AND FLAG_PEER_RELAY_REGISTRATION \<noteq> 0"
    by (simp add: into_control_frame_def FLAG_PEER_RELAY_REGISTRATION_def)
  with v assms(2) have "resolve_session_binding (we_crypto env) (we_json env) later
        (Ok (into_control_frame (we_json env) \<lparr> pr_introduction = ?s \<rparr>)) device (bc_server_identity ctx) =
      (if rq_provider_device_public_key request \<noteq> device then Err ProviderMismatch
       else if saturating_add now 300 \<le> later then Err IntroductionExpired
       else Ok \<lparr> sb_client_public_key = rq_consumer_device_public_key request, sb_initial_frame = None,
                 sb_relayed_via_provider = True \<rparr>)"
    by (simp add: resolve_session_binding_def verify_relay_registration_def Let_def introduction_claims_def)
  moreover have "Option.bind (json_parse (we_json env) answer) decode_signed = Some ?s"
    using json_okD(4) [OF assms(2)] by (simp add: a)
  ultimately show ?thesis using r by (intro conjI exI [of _ ?s])
qed

text \<open>
  C39.  Authentication challenges and introduction requests are signed with the same key and without a
  mark of their purpose.  A server the client talks to can choose as challenge the encoded payload
  of an introduction request in the client's name; the client's answer to the challenge is then a
  signature with which the real server issues the introduction.
\<close>

theorem challenge_answer_signs_introduction:
  assumes "crypto_ok (we_crypto env)" "json_ok (we_json env)" "length k = 32" "length ks = 32"
    and "kp = from_signing_key (we_crypto env) k" "bc_server_identity ctx = from_signing_key (we_crypto env) ks"
    and "rq_consumer_device_public_key r = public_key_b64 kp"
    and "is_authorized (bc_authorized_keys ctx) (public_key_b64 kp)"
    and "is_authorized (bc_authorized_keys ctx) (rq_provider_device_public_key r)"
    and "\<not> request_incomplete (r\<lparr> rq_consumer_signature := ''s'' \<rparr>)"
    and "\<forall>b. b \<noteq> [] \<longrightarrow> std_encode (we_crypto env) b \<noteq> []"
  shows "\<exists>signature answer.
    sign_auth_challenge (we_crypto env) kp (url_encode (we_crypto env) (signed_payload (we_json env) r)) = Ok signature \<and>
    peer_share_introduction_response env now ctx
      (json_print (we_json env) (request_json (r\<lparr> rq_consumer_signature := signature \<rparr>))) = (OK, answer)"
proof -
  let ?cr = "we_crypto env" and ?js = "we_json env"
  let ?sig = "std_encode ?cr (ed_sign ?cr k (signed_payload ?js r))"
  let ?r = "r\<lparr> rq_consumer_signature := ?sig \<rparr>"
  have pay: "signed_payload ?js ?r = signed_payload ?js r" by (simp add: signed_payload_def)
  have "ed_sign ?cr k (signed_payload ?js r) \<noteq> []"
    using crypto_okD(4) [OF assms(1,3), of "signed_payload ?js r"] by auto
  then have "?sig \<noteq> []" using assms(11) by blast
  then have "\<not> request_incomplete ?r" using assms(10) by (simp add: request_incomplete_def)
  moreover have "Option.bind (json_parse ?js (trim (json_print ?js (request_json ?r)))) decode_request = Some ?r"
    using json_okD [OF assms(2)] by simp
  moreover have "verify_signature ?cr (rq_consumer_device_public_key ?r) (signed_payload ?js ?r) (rq_consumer_signature ?r) = Ok ()"
    unfolding pay using honest_sign_bytes(2) [OF assms(1,3)] by (simp add: assms(5,7))
  ultimately have "\<exists>answer. peer_share_introduction_response env now ctx (json_print ?js (request_json ?r)) = (OK, answer)"
    using honest_sign_bytes(1) [OF assms(1,4)] assms(7-9)
    by (simp add: peer_share_introduction_response_def Let_def assms(6))
  with honest_sign_bytes(3) [OF assms(1,3)] show ?thesis by (auto simp: assms(5))
qed

subsection \<open>Instances\<close>

text \<open>An environment with the laws, a server and two authorized devices.\<close>

definition demo_server_key :: bytes where "demo_server_key = replicate 32 9"
definition demo_consumer_key :: bytes where "demo_consumer_key = replicate 32 7"

lemma demo_key_lengths [simp]: "length demo_server_key = 32" "length demo_consumer_key = 32"
  by (simp_all add: demo_server_key_def demo_consumer_key_def)

definition demo_env :: web_env where
  "demo_env = \<lparr> we_utf8 = \<lambda>_. True, we_crypto = plain_crypto, we_json = numbering_codec,
                we_authority = \<lambda>_. None, we_sha256 = \<lambda>b. b \<rparr>"

definition demo_ctx :: BootstrapContext where
  "demo_ctx =
     \<lparr> bc_server_identity = from_signing_key plain_crypto demo_server_key, bc_tls_cert_der = Some [1, 171],
       bc_server_public_address = ''vpn:443'', bc_wireguard_keypair = None, bc_wireguard_peers = None,
       bc_wireguard_public_addr = None, bc_wireguard_peer_lease_secs = 3600,
       bc_authorized_keys =
         \<lparr> ks_file = \<lparr> df_content = Missing, df_writable = True \<rparr>,
           ks_devices = [(public_key_b64 (from_signing_key plain_crypto demo_consumer_key),
                            \<lparr> ad_device_id = ''c'', ad_public_key = [], ad_added_at = None \<rparr>),
                         (''prov'', \<lparr> ad_device_id = ''p'', ad_public_key = [], ad_added_at = None \<rparr>)] \<rparr> \<rparr>"

definition demo_request :: PeerShareIntroductionRequest where
  "demo_request =
     \<lparr> rq_consumer_device_public_key = public_key_b64 (from_signing_key plain_crypto demo_consumer_key),
       rq_provider_device_public_key = ''prov'', rq_provider_instance_nonce = ''n'', rq_provider_endpoint = ''e'',
       rq_listener_transport = ''h3'', rq_listener_cert_fingerprint = ''f'',
       rq_consumer_signature = [] \<rparr>"

lemma demo_env_simps [simp]:
  "we_utf8 demo_env = (\<lambda>_. True)" "we_crypto demo_env = plain_crypto" "we_json demo_env = numbering_codec"
  "we_authority demo_env = (\<lambda>_. None)" "we_sha256 demo_env = (\<lambda>b. b)"
  by (simp_all add: demo_env_def)

lemma plain_encode_nonempty: "b \<noteq> [] \<Longrightarrow> std_encode plain_crypto b \<noteq> []" by (simp add: plain_crypto_def)

lemma demo_facts:
  "bc_server_identity demo_ctx = from_signing_key plain_crypto demo_server_key"
  "rq_consumer_device_public_key demo_request = public_key_b64 (from_signing_key plain_crypto demo_consumer_key)"
  "is_authorized (bc_authorized_keys demo_ctx) (public_key_b64 (from_signing_key plain_crypto demo_consumer_key))"
  "is_authorized (bc_authorized_keys demo_ctx) (rq_provider_device_public_key demo_request)"
  "public_key_b64 (from_signing_key plain_crypto demo_consumer_key) \<noteq> []"
  by (simp_all add: demo_ctx_def demo_request_def is_authorized_def)
    (simp add: from_signing_key_def plain_crypto_def demo_consumer_key_def)

lemma demo_complete: "\<not> request_incomplete (demo_request\<lparr> rq_consumer_signature := ''s'' \<rparr>)"
  using demo_facts(5) by (simp add: request_incomplete_def demo_request_def)

theorem challenge_answer_signs_introduction_witness:
  "\<exists>signature answer.
    sign_auth_challenge plain_crypto (from_signing_key plain_crypto demo_consumer_key)
      (url_encode plain_crypto (signed_payload numbering_codec demo_request)) = Ok signature \<and>
    peer_share_introduction_response demo_env 0 demo_ctx
      (json_print numbering_codec (request_json (demo_request\<lparr> rq_consumer_signature := signature \<rparr>))) = (OK, answer)"
  by (rule challenge_answer_signs_introduction [of demo_env, unfolded demo_env_simps,
        OF plain_crypto_ok numbering_codec_ok demo_key_lengths(2,1) refl demo_facts(1-4) demo_complete])
    (simp add: plain_encode_nonempty)

text \<open>A request signed by its consumer.\<close>

definition demo_signed :: PeerShareIntroductionRequest where
  "demo_signed = demo_request\<lparr> rq_consumer_signature :=
     std_encode plain_crypto (ed_sign plain_crypto demo_consumer_key (signed_payload numbering_codec demo_request)) \<rparr>"

lemma demo_signed_accepted:
  "\<exists>answer. peer_share_introduction_response demo_env now demo_ctx
     (json_print numbering_codec (request_json demo_signed)) = (OK, answer)"
proof -
  have "ed_sign plain_crypto demo_consumer_key (signed_payload numbering_codec demo_request) \<noteq> []"
    using crypto_okD(4) [OF plain_crypto_ok, of demo_consumer_key "signed_payload numbering_codec demo_request"]
    by auto
  from plain_encode_nonempty [OF this] have "\<not> request_incomplete demo_signed"
    using demo_complete by (simp add: request_incomplete_def demo_signed_def)
  moreover have keys: "rq_consumer_device_public_key demo_signed = public_key_b64 (from_signing_key plain_crypto demo_consumer_key)"
    "rq_provider_device_public_key demo_signed = rq_provider_device_public_key demo_request"
    by (simp_all add: demo_signed_def demo_facts)
  moreover have "verify_signature plain_crypto (rq_consumer_device_public_key demo_signed)
      (signed_payload numbering_codec demo_signed) (rq_consumer_signature demo_signed) = Ok ()"
    unfolding keys using honest_sign_bytes(2) [OF plain_crypto_ok demo_key_lengths(2)]
    by (simp add: demo_signed_def signed_payload_def)
  ultimately show ?thesis
    using demo_facts honest_sign_bytes(1) [OF plain_crypto_ok demo_key_lengths(1)] json_okD [OF numbering_codec_ok]
    by (simp add: peer_share_introduction_response_def Let_def)
qed

theorem introduction_relay_witness:
  "\<exists>answer s. peer_share_introduction_response demo_env 100 demo_ctx
       (json_print numbering_codec (request_json demo_signed)) = (OK, answer) \<and>
     resolve_session_binding plain_crypto numbering_codec 399
       (Ok (into_control_frame numbering_codec \<lparr> pr_introduction = s \<rparr>)) ''prov'' (bc_server_identity demo_ctx) =
     Ok \<lparr> sb_client_public_key = public_key_b64 (from_signing_key plain_crypto demo_consumer_key),
          sb_initial_frame = None, sb_relayed_via_provider = True \<rparr>"
proof -
  obtain answer where a: "peer_share_introduction_response demo_env 100 demo_ctx
      (json_print numbering_codec (request_json demo_signed)) = (OK, answer)"
    using demo_signed_accepted [of 100] ..
  have "Option.bind (json_parse numbering_codec (trim (json_print numbering_codec (request_json demo_signed))))
      decode_request = Some demo_signed"
    using json_okD [OF numbering_codec_ok] by simp
  note relay = introduction_relay [of demo_env, unfolded demo_env_simps,
      OF plain_crypto_ok numbering_codec_ok demo_key_lengths(1) demo_facts(1) a this, of 399 "''prov''"]
  have "\<not> saturating_add 100 300 \<le> (399 :: u64)" by (simp add: saturating_add_def)
  moreover have "rq_provider_device_public_key demo_signed = ''prov''"
    "rq_consumer_device_public_key demo_signed = public_key_b64 (from_signing_key plain_crypto demo_consumer_key)"
    by (simp_all add: demo_signed_def demo_request_def)
  ultimately show ?thesis using a relay by auto
qed

theorem bootstrap_exchange_witness:
  "\<exists>resp. handle_plain_connection demo_env 0 demo_ctx [ReadData (as_bytes (build_http_request ''GET'' ''h'' ''/v1'' None))] =
      Return (demo_ctx, ConnAnswered resp) \<and>
    extract_http_json_body (\<lambda>_. True) (as_bytes resp) = Err (RequestFailed ''HTTP/1.1 404 Not Found'')"
proof -
  let ?req = "build_http_request ''GET'' ''h'' ''/v1'' None"
  define error_body where \<open>error_body = ''{"error":"not found"}''\<close>
  have "length ?req < MAX_HEADER_BYTES" "trim ''h'' = ''h''" "show_nat 404 = ''404''" "as_bytes ?req \<noteq> []"
    "\<not> list_ex is_upgrade_line (str_lines [])" by code_simp+
  moreover have "route_bootstrap_request demo_env 0 ''GET'' ''/v1'' [] demo_ctx
      (Some (advertised_endpoints_for_request (we_authority demo_env) demo_ctx (Some ''h''))) =
      Return (demo_ctx, NOT_FOUND, error_body)"
    by (simp add: route_bootstrap_request_def error_body_def)
  ultimately show ?thesis
    using bootstrap_exchange [of "''GET''" "''/v1''" "''h''" ?req None demo_env "[ReadData (as_bytes ?req)]" "[]" 0 demo_ctx
        demo_ctx NOT_FOUND error_body]
    by (simp add: plain_line_def only_data_def socket_data_def)
qed

end
