(* ===== verification/Spec2Isabelle.thy ===== *)
theory Spec2Isabelle
  imports Prelude Scheduler Session Transport Packets Strings Forwarder TcpPoll Json Auth Handshake
    Registry WgPeers TunBridge Captures NetRuntime WgTransport WgServer
    PeerShare Http Config Bootstrap
begin

text \<open>
  A verification development of \<^verbatim>\<open>bonded\<close>, a multi-path tunnel.
\<close>

end
